theory Spec2Isabelle
  imports Main
begin

section \<open>Python values\<close>

text \<open>
  The proxies work on whatever \<open>json.loads\<close> returns. A decoded value is \<open>None\<close>, a bool, an
  int, a float (given by mantissa and binary exponent; only its type and its truthiness are
  ever looked at), a str, a list or a dict. A dict keeps its items in insertion order, so it
  is an association list; a lookup takes the first item with the key.

  Strings are lists of 8-bit characters; \<open>lower\<close> and \<open>upper\<close> act on the ASCII letters.
\<close>

datatype json =
    JNull
  | JBool bool
  | JInt int
  | JFloat int int
  | JStr string
  | JArr "json list"
  | JObj "(string \<times> json) list"

type_synonym pydict = "(string \<times> json) list"

datatype py_error = AttributeError | TypeError | KeyError | IndexError | ValueError
  | JSONDecodeError | RequestException

text \<open>Sequencing of steps that may raise: the first exception ends the computation.\<close>

definition bnd :: "py_error + 'a \<Rightarrow> ('a \<Rightarrow> py_error + 'b) \<Rightarrow> py_error + 'b" where
  "bnd m f = (case m of Inl e \<Rightarrow> Inl e | Inr x \<Rightarrow> f x)"

text \<open>\<open>bool(v)\<close>: the values Python treats as false are \<open>None\<close>, \<open>False\<close>, zero, and the empty
  str, list and dict.\<close>

fun truthy :: "json \<Rightarrow> bool" where
  "truthy JNull = False"
| "truthy (JBool b) = b"
| "truthy (JInt i) = (i \<noteq> 0)"
| "truthy (JFloat m e) = (m \<noteq> 0)"
| "truthy (JStr s) = (s \<noteq> [])"
| "truthy (JArr xs) = (xs \<noteq> [])"
| "truthy (JObj d) = (d \<noteq> [])"

text \<open>\<open>d.get(k, default)\<close> on a dict, \<open>k in d\<close>, and \<open>v.get(k, default)\<close> on any value: only a
  dict has the method.\<close>

definition dict_get :: "pydict \<Rightarrow> string \<Rightarrow> json \<Rightarrow> json" where
  "dict_get d k dflt = (case map_of d k of Some v \<Rightarrow> v | None \<Rightarrow> dflt)"

definition has_key :: "pydict \<Rightarrow> string \<Rightarrow> bool" where
  "has_key d k = (map_of d k \<noteq> None)"

fun py_get :: "json \<Rightarrow> string \<Rightarrow> json \<Rightarrow> py_error + json" where
  "py_get (JObj d) k dflt = Inr (dict_get d k dflt)"
| "py_get _ k dflt = Inl AttributeError"

text \<open>A value is hashable unless it is a list or a dict: \<open>v in some_set\<close> and
  \<open>some_dict[v] = x\<close> raise \<open>TypeError\<close> on those.\<close>

fun hashable :: "json \<Rightarrow> bool" where
  "hashable (JArr xs) = False"
| "hashable (JObj d) = False"
| "hashable _ = True"

section \<open>Python string operations\<close>

definition lower_char :: "char \<Rightarrow> char" where
  "lower_char c =
     (if (65::nat) \<le> of_char c \<and> of_char c \<le> (90::nat) then char_of (of_char c + (32::nat)) else c)"

definition upper_char :: "char \<Rightarrow> char" where
  "upper_char c =
     (if (97::nat) \<le> of_char c \<and> of_char c \<le> (122::nat) then char_of (of_char c - (32::nat)) else c)"

definition lower :: "string \<Rightarrow> string" where
  "lower s = map lower_char s"

definition upper :: "string \<Rightarrow> string" where
  "upper s = map upper_char s"

text \<open>\<open>s.startswith(p)\<close> and \<open>p in s\<close> (substring).\<close>

fun startswith :: "string \<Rightarrow> string \<Rightarrow> bool" where
  "startswith s [] = True"
| "startswith [] (p # ps) = False"
| "startswith (c # cs) (p # ps) = (c = p \<and> startswith cs ps)"

fun contains :: "string \<Rightarrow> string \<Rightarrow> bool" where
  "contains [] sub = (sub = [])"
| "contains (c # cs) sub = (startswith (c # cs) sub \<or> contains cs sub)"

text \<open>The first occurrence of a separator: the text before it and the text after it.\<close>

fun find_sep :: "string \<Rightarrow> string \<Rightarrow> (string \<times> string) option" where
  "find_sep sep [] = (if sep = [] then Some ([], []) else None)"
| "find_sep sep (c # cs) =
     (if startswith (c # cs) sep then Some ([], drop (length sep) (c # cs))
      else map_option (\<lambda>(a, b). (c # a, b)) (find_sep sep cs))"

lemma startswith_length: "startswith s p \<Longrightarrow> length p \<le> length s"
  by (induction s p rule: startswith.induct) auto

lemma find_sep_length:
  "find_sep sep s = Some (a, b) \<Longrightarrow> length a + length sep + length b = length s"
proof (induction s arbitrary: a)
  case Nil
  then show ?case by (auto split: if_splits)
next
  case (Cons c cs)
  show ?case
  proof (cases "startswith (c # cs) sep")
    case True
    with Cons.prems startswith_length [OF True] show ?thesis by auto
  next
    case False
    with Cons.prems obtain a' where "find_sep sep cs = Some (a', b)" and "a = c # a'"
      by auto
    with Cons.IH show ?thesis by fastforce
  qed
qed

lemma find_sep_shorter:
  "sep \<noteq> [] \<Longrightarrow> find_sep sep s = Some (a, b) \<Longrightarrow> length b < length s"
  using find_sep_length [of sep s a b] by (cases sep) auto

text \<open>\<open>s.split(sep)\<close>, \<open>s.split(sep, 1)\<close> and \<open>s.replace(old, new)\<close>. The source calls them with
  non-empty literal separators only (Python raises \<open>ValueError\<close> on an empty one).\<close>

function split :: "string \<Rightarrow> string \<Rightarrow> string list" where
  "split sep s =
     (if sep = [] then [s]
      else case find_sep sep s of None \<Rightarrow> [s] | Some (a, b) \<Rightarrow> a # split sep b)"
  by pat_completeness auto
termination
  by (relation "measure (\<lambda>(sep, s). length s)") (auto dest: find_sep_shorter)

definition split1 :: "string \<Rightarrow> string \<Rightarrow> string list" where
  "split1 sep s = (case find_sep sep s of None \<Rightarrow> [s] | Some (a, b) \<Rightarrow> [a, b])"

function replace :: "string \<Rightarrow> string \<Rightarrow> string \<Rightarrow> string" where
  "replace old new s =
     (if old = [] then s
      else case find_sep old s of None \<Rightarrow> s | Some (a, b) \<Rightarrow> a @ new @ replace old new b)"
  by pat_completeness auto
termination
  by (relation "measure (\<lambda>(old, new, s). length s)") (auto dest: find_sep_shorter)

declare split.simps [simp del] replace.simps [simp del]

text \<open>\<open>s.strip()\<close> removes leading and trailing whitespace: the characters for which
  \<open>str.isspace\<close> holds, here those below code point 256.\<close>

definition is_space :: "char \<Rightarrow> bool" where
  "is_space c = (of_char c \<in> {9::nat, 10, 11, 12, 13, 28, 29, 30, 31, 32, 133, 160})"

definition strip :: "string \<Rightarrow> string" where
  "strip s = rev (dropWhile is_space (rev (dropWhile is_space s)))"

section \<open>Response normalisation\<close>

text \<open>
  \<open>json.loads\<close> belongs to Python's library, so the decoder is a parameter \<open>loads\<close> of the
  model: it gives the decoded value, or the exception raised. \<open>JSONDecodeError\<close> is the one
  the inner handler catches; any other exception reaches the outer handlers. Of a
  \<open>requests.Response\<close> only \<open>ok\<close> and the body text are used; \<open>response.json()\<close> is \<open>loads\<close>
  applied to the body.
\<close>

datatype response = Response (ok: bool) (body: string)

definition empty_reply :: json where
  "empty_reply = JObj [(''data'', JObj [(''records'', JArr [])])]"

definition max_unwrap_attempts :: nat where
  "max_unwrap_attempts = 5"

text \<open>The \<open>while\<close> loop of \<open>_parse_optimusdb_response\<close> (metadata proxy): it returns from the
  function (a nested text that does not decode), raises, or falls through with the value
  reached.\<close>

datatype loop_exit = Returned json | Raised py_error | Fell_through json

function unwrap_loop :: "(string \<Rightarrow> py_error + json) \<Rightarrow> json \<Rightarrow> nat \<Rightarrow> loop_exit" where
  "unwrap_loop loads result attempts =
     (case result of
        JStr s \<Rightarrow>
          if attempts < max_unwrap_attempts then
            (case loads s of
               Inr r \<Rightarrow> unwrap_loop loads r (attempts + 1)
             | Inl e \<Rightarrow>
                 if e = JSONDecodeError then
                   Returned (JObj [(''error'', JStr s), (''data'', JObj [(''records'', JArr [])])])
                 else Raised e)
          else Fell_through result
      | _ \<Rightarrow> Fell_through result)"
  by pat_completeness auto
termination
  by (relation "measure (\<lambda>(loads, result, attempts). max_unwrap_attempts - attempts)") auto

definition parse_optimusdb_response :: "(string \<Rightarrow> py_error + json) \<Rightarrow> response \<Rightarrow> json" where
  "parse_optimusdb_response loads resp =
     (case loads (body resp) of
        Inl e \<Rightarrow> empty_reply
      | Inr result0 \<Rightarrow>
          (case unwrap_loop loads result0 0 of
             Returned r \<Rightarrow> r
           | Raised e \<Rightarrow> empty_reply
           | Fell_through result \<Rightarrow>
               (case result of
                  JObj d \<Rightarrow>
                    if \<not> has_key d ''data'' \<and> \<not> has_key d ''records'' then
                      (if has_key d ''error'' \<or> has_key d ''message'' then
                         JObj [(''error'', dict_get d ''error''
                                            (dict_get d ''message'' (JStr ''Unknown error''))),
                               (''data'', JObj [(''records'', JArr [])])]
                       else empty_reply)
                    else result
                | _ \<Rightarrow> empty_reply)))"

text \<open>\<open>OptimusDBSearchProxy._parse_optimusdb_response\<close> (search proxy): one re-parse only.\<close>

definition search_parse_optimusdb_response ::
    "(string \<Rightarrow> py_error + json) \<Rightarrow> response \<Rightarrow> json" where
  "search_parse_optimusdb_response loads resp =
     (case loads (body resp) of
        Inl e \<Rightarrow> empty_reply
      | Inr result0 \<Rightarrow>
          (case result0 of
             JStr s \<Rightarrow>
               (case loads s of
                  Inl e \<Rightarrow> empty_reply
                | Inr result \<Rightarrow> (case result of JObj d \<Rightarrow> result | _ \<Rightarrow> empty_reply))
           | JObj d \<Rightarrow> result0
           | _ \<Rightarrow> empty_reply))"

text \<open>What every caller does with the parsed reply:
  \<open>result.get('data', {}).get('records', [])\<close>.\<close>

definition reply_records :: "json \<Rightarrow> py_error + json" where
  "reply_records result =
     bnd (py_get result ''data'' (JObj [])) (\<lambda>data. py_get data ''records'' (JArr []))"

text \<open>The nominal reply for a record set \<open>R\<close> is \<open>{"data": {"records": R}}\<close>. A text is the
  plain encoding of a value when it decodes to it, and wraps it in \<open>n + 1\<close> layers when it
  decodes to a str that wraps it in \<open>n\<close> layers: \<open>wrapped loads n t v\<close> says that \<open>t\<close> is the
  value \<open>v\<close> inside \<open>n\<close> JSON string layers.\<close>

definition reply_of :: "json list \<Rightarrow> json" where
  "reply_of R = JObj [(''data'', JObj [(''records'', JArr R)])]"

fun wrapped :: "(string \<Rightarrow> py_error + json) \<Rightarrow> nat \<Rightarrow> string \<Rightarrow> json \<Rightarrow> bool" where
  "wrapped loads 0 t v = (loads t = Inr v)"
| "wrapped loads (Suc n) t v =
     (case loads t of Inr (JStr s) \<Rightarrow> wrapped loads n s v | _ \<Rightarrow> False)"

subsection \<open>A decoder for the examples\<close>

text \<open>
  \<open>json_quote\<close> is \<open>json.dumps\<close> on a str of printable ASCII characters: the text between
  double quotes, with a backslash before every double quote and backslash. \<open>sample_loads\<close>
  agrees with \<open>json.loads\<close> on such string literals and on the texts of its table.
\<close>

definition dq :: char where "dq = CHR 0x22"
definition bs :: char where "bs = CHR 0x5C"

fun json_escape :: "string \<Rightarrow> string" where
  "json_escape [] = []"
| "json_escape (c # cs) =
     (if c = dq \<or> c = bs then bs # c # json_escape cs else c # json_escape cs)"

definition json_quote :: "string \<Rightarrow> string" where
  "json_quote s = dq # json_escape s @ [dq]"

fun json_unescape :: "string \<Rightarrow> string option" where
  "json_unescape [] = None"
| "json_unescape [c] = (if c = dq then Some [] else None)"
| "json_unescape (c # d # ds) =
     (if c = dq then None
      else if c = bs then
        (if d = dq \<or> d = bs then map_option ((#) d) (json_unescape ds) else None)
      else map_option ((#) c) (json_unescape (d # ds)))"

definition sample_records :: "json list" where
  "sample_records = [JObj [(''name'', JStr ''orders''), (''metadata_type'', JStr ''sales'')]]"

definition sample_body :: string where
  "sample_body = ''{'' @ json_quote ''data'' @ '': {'' @ json_quote ''records'' @ '': [{''
     @ json_quote ''name'' @ '': '' @ json_quote ''orders'' @ '', ''
     @ json_quote ''metadata_type'' @ '': '' @ json_quote ''sales'' @ ''}]}}''"

definition mixed_body :: string where
  "mixed_body = ''{'' @ json_quote ''data'' @ '': {'' @ json_quote ''records'' @ '': [''
     @ json_quote ''orders'' @ '', null, {'' @ json_quote ''name'' @ '': ''
     @ json_quote ''orders'' @ ''}]}}''"

definition sample_table :: "(string \<times> json) list" where
  "sample_table =
     [(sample_body, reply_of sample_records),
      (mixed_body, reply_of [JStr ''orders'', JNull, JObj [(''name'', JStr ''orders'')]])]"

definition sample_loads :: "string \<Rightarrow> py_error + json" where
  "sample_loads t =
     (case map_of sample_table t of
        Some v \<Rightarrow> Inr v
      | None \<Rightarrow>
          (case t of
             c # cs \<Rightarrow>
               if c = dq then
                 (case json_unescape cs of Some u \<Rightarrow> Inr (JStr u) | None \<Rightarrow> Inl JSONDecodeError)
               else Inl JSONDecodeError
           | [] \<Rightarrow> Inl JSONDecodeError))"

section \<open>Table keys\<close>

text \<open>\<open>_build_table_key\<close> and \<open>_parse_table_uri\<close>. \<open>x or default\<close> on a str takes the default for
  the empty str. In the decoder the tuple unpacking and the index raise when the split has
  too few parts; every exception is caught and gives the fallback triple.\<close>

definition build_table_key :: "string \<Rightarrow> string \<Rightarrow> string \<Rightarrow> string" where
  "build_table_key database schema name =
     (let database = replace '' '' ''_'' (if database = [] then ''optimusdb'' else database);
          schema = replace '' '' ''_'' (if schema = [] then ''public'' else schema);
          name = replace '' '' ''_'' (if name = [] then ''unknown'' else name)
      in database @ ''://default.'' @ schema @ ''/'' @ name)"

definition table_ref :: "string \<Rightarrow> string \<Rightarrow> string \<Rightarrow> (string \<times> string) list" where
  "table_ref database schema name = [(''database'', database), (''schema'', schema), (''name'', name)]"

definition uri_schema_name :: "string \<Rightarrow> py_error + (string \<times> string)" where
  "uri_schema_name rest =
     (if contains rest ''/'' then
        (case split1 ''/'' rest of
           [cluster_schema, name] \<Rightarrow>
             if contains cluster_schema ''.'' then
               (case split1 ''.'' cluster_schema of
                  _ # schema # _ \<Rightarrow> Inr (schema, name)
                | _ \<Rightarrow> Inl IndexError)
             else Inr (''default'', name)
         | _ \<Rightarrow> Inl ValueError)
      else Inr (''default'', rest))"

definition parse_table_uri :: "string \<Rightarrow> (string \<times> string) list" where
  "parse_table_uri table_uri0 =
     (let table_uri = replace ''%20'' '' '' (strip table_uri0);
          parts = split ''://'' table_uri;
          database = (if length parts > 1 then parts ! 0 else ''optimusdb'');
          rest = (if length parts > 1 then parts ! 1 else table_uri)
      in case uri_schema_name rest of
           Inr (schema, name) \<Rightarrow>
             table_ref database (replace ''_'' '' '' schema) (replace ''_'' '' '' name)
         | Inl e \<Rightarrow> table_ref ''optimusdb'' ''default'' ''unknown'')"

section \<open>Table search\<close>

text \<open>
  A dataset is a dict of arbitrary values. \<open>v.lower()\<close> exists on a str only. A \<open>for\<close> loop
  runs over the elements of a list, the keys of a dict and the characters of a str, and
  raises \<open>TypeError\<close> on any other value.
\<close>

fun py_lower :: "json \<Rightarrow> py_error + string" where
  "py_lower (JStr s) = Inr (lower s)"
| "py_lower _ = Inl AttributeError"

fun py_iter :: "json \<Rightarrow> py_error + json list" where
  "py_iter (JArr xs) = Inr xs"
| "py_iter (JObj d) = Inr (map (\<lambda>item. JStr (fst item)) d)"
| "py_iter (JStr s) = Inr (map (\<lambda>c. JStr [c]) s)"
| "py_iter _ = Inl TypeError"

text \<open>\<open>_calculate_search_score\<close>, one definition for each signal, in the order of the source.
  The score is a float that only ever holds sums of the whole numbers below, so it is an
  integer here.\<close>

definition name_signal :: "pydict \<Rightarrow> string \<Rightarrow> py_error + int" where
  "name_signal dataset query_lower =
     bnd (py_lower (dict_get dataset ''name'' (JStr ''''))) (\<lambda>name.
       Inr (if name = query_lower then 100
            else if startswith name query_lower then 80
            else if contains name query_lower then 50
            else 0))"

definition schema_signal :: "pydict \<Rightarrow> string \<Rightarrow> py_error + int" where
  "schema_signal dataset query_lower =
     bnd (py_lower (dict_get dataset ''schema'' (JStr ''''))) (\<lambda>schema.
       Inr (if schema = query_lower \<or> contains schema query_lower then 40 else 0))"

text \<open>A loop that stops at the first element whose lower-cased text is a hit.\<close>

fun first_match :: "(string \<Rightarrow> bool) \<Rightarrow> json list \<Rightarrow> py_error + bool" where
  "first_match hit [] = Inr False"
| "first_match hit (x # xs) =
     bnd (py_lower x) (\<lambda>l. if hit l then Inr True else first_match hit xs)"

definition tags_of :: "json \<Rightarrow> py_error + json list" where
  "tags_of tags =
     (case tags of
        JStr s \<Rightarrow> Inr (map JStr (filter (\<lambda>t. t \<noteq> []) (map strip (split '','' s))))
      | _ \<Rightarrow> py_iter tags)"

definition tag_signal :: "pydict \<Rightarrow> string \<Rightarrow> py_error + int" where
  "tag_signal dataset query_lower =
     bnd (tags_of (dict_get dataset ''tags'' (JArr []))) (\<lambda>tags.
     bnd (first_match (\<lambda>tag. query_lower = tag \<or> contains tag query_lower) tags) (\<lambda>found.
       Inr (if found then 30 else 0)))"

definition description_signal :: "pydict \<Rightarrow> string \<Rightarrow> py_error + int" where
  "description_signal dataset query_lower =
     bnd (py_lower (dict_get dataset ''description'' (JStr ''''))) (\<lambda>description.
       Inr (if contains description query_lower then 20 else 0))"

definition column_signal :: "pydict \<Rightarrow> string \<Rightarrow> py_error + int" where
  "column_signal dataset query_lower =
     bnd (py_iter (dict_get dataset ''column_names'' (JArr []))) (\<lambda>column_names.
     bnd (first_match (\<lambda>col. contains col query_lower) column_names) (\<lambda>found.
       Inr (if found then 15 else 0)))"

definition database_signal :: "pydict \<Rightarrow> string \<Rightarrow> py_error + int" where
  "database_signal dataset query_lower =
     bnd (py_lower (dict_get dataset ''database'' (JStr ''''))) (\<lambda>database.
       Inr (if contains database query_lower then 10 else 0))"

definition calculate_search_score :: "pydict \<Rightarrow> string \<Rightarrow> py_error + int" where
  "calculate_search_score dataset query_lower =
     (if query_lower = [] then Inr 0
      else
        bnd (name_signal dataset query_lower) (\<lambda>s1.
        bnd (schema_signal dataset query_lower) (\<lambda>s2.
        bnd (tag_signal dataset query_lower) (\<lambda>s3.
        bnd (description_signal dataset query_lower) (\<lambda>s4.
        bnd (column_signal dataset query_lower) (\<lambda>s5.
        bnd (database_signal dataset query_lower) (\<lambda>s6.
          Inr (s1 + s2 + s3 + s4 + s5 + s6))))))))"

text \<open>
  \<open>get_table_by_search\<close>. The datasets come from discovery over the network, so they are a
  parameter: the list, or the exception raised while getting it. The scoring loop keeps the
  datasets with a positive score; the sort is stable and descending on the score; a slice
  with a negative bound counts from the end, as in Python.
\<close>

record search_result =
  total_results :: nat
  results :: "pydict list"
  page_index :: int

fun score_all :: "pydict list \<Rightarrow> string \<Rightarrow> py_error + (int \<times> pydict) list" where
  "score_all [] query_lower = Inr []"
| "score_all (dataset # datasets) query_lower =
     bnd (calculate_search_score dataset query_lower) (\<lambda>score.
     bnd (score_all datasets query_lower) (\<lambda>scored_results.
       Inr (if score > 0 then (score, dataset) # scored_results else scored_results)))"

definition slice_bound :: "nat \<Rightarrow> int \<Rightarrow> nat" where
  "slice_bound n i = (if i < 0 then nat (max 0 (int n + i)) else min (nat i) n)"

definition py_slice :: "'a list \<Rightarrow> int \<Rightarrow> int \<Rightarrow> 'a list" where
  "py_slice xs i j =
     (let a = slice_bound (length xs) i; b = slice_bound (length xs) j
      in take (b - a) (drop a xs))"

definition page_size :: int where
  "page_size = 10"

definition get_table_by_search ::
    "(py_error + pydict list) \<Rightarrow> string \<Rightarrow> int \<Rightarrow> search_result" where
  "get_table_by_search all_datasets query_term page =
     (case bnd all_datasets (\<lambda>datasets. score_all datasets (strip (lower query_term))) of
        Inl e \<Rightarrow> \<lparr>total_results = 0, results = [], page_index = page\<rparr>
      | Inr scored_results \<Rightarrow>
          (let matching_tables = map snd (sort_key (\<lambda>item. - fst item) scored_results);
               start_idx = page * page_size;
               end_idx = start_idx + page_size
           in \<lparr>total_results = length matching_tables,
               results = py_slice matching_tables start_idx end_idx,
               page_index = page\<rparr>))"

text \<open>Datasets for the examples.\<close>

definition sales_dataset :: "string \<Rightarrow> pydict" where
  "sales_dataset name =
     [(''name'', JStr name), (''schema'', JStr ''finance''),
      (''tags'', JArr [JStr ''revenue'']), (''description'', JStr ''Quarterly figures''),
      (''column_names'', JArr [JStr ''_id'', JStr ''amount'']), (''database'', JStr ''optimusdb'')]"

definition described_dataset :: pydict where
  "described_dataset =
     [(''name'', JStr ''orders''), (''schema'', JStr ''finance''),
      (''tags'', JArr [JStr ''revenue'']), (''description'', JStr ''All Sales of the year''),
      (''column_names'', JArr [JStr ''_id'', JStr ''amount'']), (''database'', JStr ''optimusdb'')]"

definition unrelated_dataset :: pydict where
  "unrelated_dataset =
     [(''name'', JStr ''sensors''), (''schema'', JStr ''iot''),
      (''tags'', JStr ''edge, device''), (''description'', JStr ''Readings''),
      (''column_names'', JArr [JStr ''_id'']), (''database'', JStr ''optimusdb'')]"

section \<open>Columns of a table\<close>

text \<open>\<open>_infer_type\<close>: the type of a column from a value. A bool is tested before an int,
  as a Python bool is an int. No method of the proxy calls it.\<close>

fun infer_type :: "json \<Rightarrow> string" where
  "infer_type (JBool b) = ''boolean''"
| "infer_type (JInt i) = ''int''"
| "infer_type (JFloat m e) = ''float''"
| "infer_type _ = ''varchar''"

text \<open>
  \<open>_build_columns_from_record\<close>. The schema map is a dict filled from \<open>schema_info\<close>, a later
  entry for a name replacing an earlier one. It is read with the field names of the record
  only, which are strs, so it is kept as an association list on strs with the newest entry
  first: an entry under a key that is not a str can never be found and is not stored. A key
  that is a non-empty list or dict cannot be hashed, and the assignment raises \<open>TypeError\<close>.
\<close>

fun schema_map_loop :: "json list \<Rightarrow> pydict \<Rightarrow> py_error + pydict" where
  "schema_map_loop [] schema_map = Inr schema_map"
| "schema_map_loop (col # cols) schema_map =
     bnd (py_get col ''name'' (JStr '''')) (\<lambda>col_name.
     bnd (py_get col ''type'' (JStr ''varchar'')) (\<lambda>col_type.
       if truthy col_name then
         (if hashable col_name then
            schema_map_loop cols
              (case col_name of JStr s \<Rightarrow> (s, col_type) # schema_map | _ \<Rightarrow> schema_map)
          else Inl TypeError)
       else schema_map_loop cols schema_map))"

definition schema_map_of :: "json \<Rightarrow> py_error + pydict" where
  "schema_map_of schema_info =
     (if truthy schema_info then bnd (py_iter schema_info) (\<lambda>cols. schema_map_loop cols [])
      else Inr [])"

text \<open>The display name of a type; \<open>col_type.upper()\<close> exists on a str only.\<close>

definition simplify_type :: "json \<Rightarrow> py_error + json" where
  "simplify_type col_type =
     (case col_type of
        JStr t \<Rightarrow>
          Inr (JStr
            (if upper t \<in> set [''TEXT'', ''VARCHAR'', ''STRING'', ''CHAR''] then ''varchar''
             else if upper t \<in> set [''INT'', ''INTEGER'', ''BIGINT'', ''SMALLINT''] then ''int''
             else if upper t \<in> set [''FLOAT'', ''DOUBLE'', ''DECIMAL'', ''NUMERIC''] then ''float''
             else if upper t \<in> set [''TIMESTAMP'', ''DATETIME'', ''DATE''] then ''timestamp''
             else if upper t \<in> set [''BOOLEAN'', ''BOOL''] then ''boolean''
             else t))
      | _ \<Rightarrow> Inl AttributeError)"

text \<open>\<open>s.title()\<close>: a letter that follows a letter is lower-cased, any other letter is
  upper-cased.\<close>

definition is_alpha :: "char \<Rightarrow> bool" where
  "is_alpha c = ((65::nat) \<le> of_char c \<and> of_char c \<le> (90::nat)
               \<or> (97::nat) \<le> of_char c \<and> of_char c \<le> (122::nat))"

fun title_from :: "bool \<Rightarrow> string \<Rightarrow> string" where
  "title_from previous_is_cased [] = []"
| "title_from previous_is_cased (c # cs) =
     (if is_alpha c then
        (if previous_is_cased then lower_char c else upper_char c) # title_from True cs
      else c # title_from False cs)"

definition title :: "string \<Rightarrow> string" where
  "title s = title_from False s"

text \<open>The value shown for a field. \<open>str(v)\<close> is Python's, a parameter \<open>str_of\<close> of the model.\<close>

definition display_value :: "(json \<Rightarrow> string) \<Rightarrow> json \<Rightarrow> string" where
  "display_value str_of field_value =
     (let shown = (if field_value \<noteq> JNull then str_of field_value else ''NULL'')
      in if length shown > 100 then take 97 shown @ ''...'' else shown)"

definition column_entry :: "string \<Rightarrow> string \<Rightarrow> json \<Rightarrow> nat \<Rightarrow> string \<Rightarrow> pydict" where
  "column_entry field_name col_description col_type sort_order shown =
     [(''name'', JStr field_name),
      (''description'', JStr col_description),
      (''col_type'', col_type),
      (''sort_order'', JInt (int sort_order)),
      (''stats'', JArr [JObj [(''stat_type'', JStr ''value''), (''stat_val'', JStr shown)]])]"

text \<open>The loop over \<open>record.items()\<close>, with the running \<open>sort_order\<close>.\<close>

fun columns_loop ::
    "(json \<Rightarrow> string) \<Rightarrow> pydict \<Rightarrow> pydict \<Rightarrow> nat \<Rightarrow> py_error + pydict list" where
  "columns_loop str_of schema_map [] sort_order = Inr []"
| "columns_loop str_of schema_map ((field_name, field_value) # items) sort_order =
     (if startswith field_name ''_internal_'' then
        columns_loop str_of schema_map items sort_order
      else
        bnd (simplify_type (dict_get schema_map field_name (JStr ''varchar''))) (\<lambda>col_type.
        bnd (columns_loop str_of schema_map items (sort_order + 1)) (\<lambda>columns.
          Inr (column_entry field_name (title (replace ''_'' '' '' field_name)) col_type
                 sort_order (display_value str_of field_value) # columns))))"

definition build_columns_from_record ::
    "(json \<Rightarrow> string) \<Rightarrow> pydict \<Rightarrow> json \<Rightarrow> py_error + pydict list" where
  "build_columns_from_record str_of record schema_info =
     bnd (schema_map_of schema_info) (\<lambda>schema_map. columns_loop str_of schema_map record 0)"

text \<open>A schema as schema discovery writes it: a list of dicts whose \<open>name\<close> and \<open>type\<close> are
  strs.\<close>

fun schema_entry_typed :: "json \<Rightarrow> bool" where
  "schema_entry_typed (JObj d) =
     ((case dict_get d ''name'' (JStr '''') of JStr n \<Rightarrow> True | _ \<Rightarrow> False)
      \<and> (case dict_get d ''type'' (JStr ''varchar'') of JStr t \<Rightarrow> True | _ \<Rightarrow> False))"
| "schema_entry_typed _ = False"

fun schema_typed :: "json \<Rightarrow> bool" where
  "schema_typed (JArr cols) = list_all schema_entry_typed cols"
| "schema_typed _ = False"

text \<open>A record and a value printer for the examples.\<close>

definition sample_str_of :: "json \<Rightarrow> string" where
  "sample_str_of v =
     (case v of JStr s \<Rightarrow> s | JBool b \<Rightarrow> (if b then ''True'' else ''False'')
      | JInt i \<Rightarrow> (if i = 5 then ''5'' else ''?'') | _ \<Rightarrow> ''?'')"

definition sample_record :: pydict where
  "sample_record =
     [(''name'', JStr ''orders''), (''_internal_id'', JInt 17), (''row_count'', JInt 5),
      (''is_active'', JBool True), (''created_at'', JStr ''2024-01-01T00:00:00'')]"

definition sample_schema :: json where
  "sample_schema =
     JArr [JObj [(''name'', JStr ''row_count''), (''type'', JStr ''INTEGER'')],
           JObj [(''name'', JStr ''created_at''), (''type'', JStr ''datetime'')]]"

definition sample_columns :: "pydict list" where
  "sample_columns =
     [column_entry ''name'' ''Name'' (JStr ''varchar'') 0 ''orders'',
      column_entry ''row_count'' ''Row Count'' (JStr ''int'') 1 ''5'',
      column_entry ''is_active'' ''Is Active'' (JStr ''varchar'') 2 ''True'',
      column_entry ''created_at'' ''Created At'' (JStr ''timestamp'') 3 ''2024-01-01T00:00:00'']"

definition untyped_columns :: "pydict list" where
  "untyped_columns =
     [column_entry ''name'' ''Name'' (JStr ''varchar'') 0 ''orders'',
      column_entry ''row_count'' ''Row Count'' (JStr ''varchar'') 1 ''5'',
      column_entry ''is_active'' ''Is Active'' (JStr ''varchar'') 2 ''True'',
      column_entry ''created_at'' ''Created At'' (JStr ''varchar'') 3 ''2024-01-01T00:00:00'']"

section \<open>Owners of a table\<close>

text \<open>
  \<open>_parse_owners_from_record\<close>. The state of the loop is the list \<open>owners\<close> and the set
  \<open>seen_owners\<close>, to which only strs are ever added. \<open>value in seen_owners\<close> hashes the value
  first, so it raises \<open>TypeError\<close> on a list or a dict; a hashable value that is not a str
  equals no member.
\<close>

definition owner_entry :: "string \<Rightarrow> pydict" where
  "owner_entry owner =
     [(''display_name'', JStr owner),
      (''email'', JStr (replace '' '' ''.'' (lower owner) @ ''@company.com'')),
      (''user_id'', JStr owner)]"

definition system_owner :: pydict where
  "system_owner =
     [(''display_name'', JStr ''system''),
      (''email'', JStr ''system@company.com''),
      (''user_id'', JStr ''system'')]"

definition owner_fields :: "string list" where
  "owner_fields =
     [''created_by'', ''owner'', ''owners'', ''author'',
      ''ownership_details'', ''created_user'', ''user'']"

definition in_seen :: "json \<Rightarrow> string set \<Rightarrow> py_error + bool" where
  "in_seen v seen_owners =
     (if hashable v then Inr (case v of JStr s \<Rightarrow> s \<in> seen_owners | _ \<Rightarrow> False)
      else Inl TypeError)"

text \<open>The inner loop over the parts of a comma-separated value.\<close>

fun add_owners ::
    "string list \<Rightarrow> pydict list \<times> string set \<Rightarrow> pydict list \<times> string set" where
  "add_owners [] state = state"
| "add_owners (part # parts) (owners, seen_owners) =
     (let owner = strip part in
      if owner \<noteq> [] \<and> owner \<notin> seen_owners then
        add_owners parts (owners @ [owner_entry owner], insert owner seen_owners)
      else add_owners parts (owners, seen_owners))"

text \<open>One round of the loop over the owner fields.\<close>

definition owner_step ::
    "pydict \<Rightarrow> string \<Rightarrow> pydict list \<times> string set
       \<Rightarrow> py_error + (pydict list \<times> string set)" where
  "owner_step record field state =
     (let v = dict_get record field JNull in
      if \<not> truthy v then Inr state
      else
        bnd (in_seen v (snd state)) (\<lambda>found.
          if found then Inr state
          else
            (case v of
               JStr s \<Rightarrow>
                 if contains s '','' then Inr (add_owners (split '','' s) state)
                 else Inr (fst state @ [owner_entry s], insert s (snd state))
             | _ \<Rightarrow> Inr state)))"

fun owners_loop ::
    "pydict \<Rightarrow> string list \<Rightarrow> pydict list \<times> string set
       \<Rightarrow> py_error + (pydict list \<times> string set)" where
  "owners_loop record [] state = Inr state"
| "owners_loop record (field # other_fields) state =
     bnd (owner_step record field state) (owners_loop record other_fields)"

definition parse_owners_from_record :: "pydict \<Rightarrow> py_error + pydict list" where
  "parse_owners_from_record record =
     bnd (owners_loop record owner_fields ([], {})) (\<lambda>state.
       Inr (if fst state = [] then [system_owner] else fst state))"


text \<open>The names of the owners, and the invariant of the loop: the names are distinct and
  have all been seen.\<close>

definition owner_names :: "pydict list \<Rightarrow> json list" where
  "owner_names owners = map (\<lambda>owner. dict_get owner ''display_name'' JNull) owners"

definition owners_inv :: "pydict list \<times> string set \<Rightarrow> bool" where
  "owners_inv state = (distinct (owner_names (fst state))
                       \<and> set (owner_names (fst state)) \<subseteq> JStr ` snd state)"

text \<open>Records for the examples.\<close>

definition owned_record :: pydict where
  "owned_record =
     [(''name'', JStr ''orders''), (''created_by'', JStr ''alice''),
      (''owner'', JStr ''alice, Bob Smith''), (''author'', JInt 7)]"

definition listed_record :: pydict where
  "listed_record = [(''name'', JStr ''orders''), (''owners'', JArr [JStr ''alice'', JStr ''bob''])]"


section \<open>Requests to the backend\<close>

text \<open>
  \<open>session.post\<close> is the network, a parameter \<open>post\<close> of the model: for the SQL text of the
  command it gives the response, or the exception raised. \<open>_execute_sql\<close> catches every
  exception and answers a reply without records.
\<close>

definition execute_sql ::
    "(string \<Rightarrow> py_error + json) \<Rightarrow> (string \<Rightarrow> py_error + response) \<Rightarrow> string \<Rightarrow> json" where
  "execute_sql loads post sql =
     (case post sql of
        Inl e \<Rightarrow> empty_reply
      | Inr resp \<Rightarrow> if \<not> ok resp then empty_reply else parse_optimusdb_response loads resp)"

text \<open>\<open>v[0]\<close>: the first element of a list, the first character of a str, the entry under
  the key \<open>0\<close> of a dict, which a dict decoded from JSON does not have.\<close>

fun py_first :: "json \<Rightarrow> py_error + json" where
  "py_first (JArr (x # xs)) = Inr x"
| "py_first (JArr []) = Inl IndexError"
| "py_first (JStr (c # cs)) = Inr (JStr [c])"
| "py_first (JStr []) = Inl IndexError"
| "py_first (JObj d) = Inl KeyError"
| "py_first _ = Inl TypeError"

text \<open>\<open>d[k]\<close> on a dict of strs.\<close>

definition py_item :: "(string \<times> string) list \<Rightarrow> string \<Rightarrow> py_error + string" where
  "py_item d k = (case map_of d k of Some v \<Rightarrow> Inr v | None \<Rightarrow> Inl KeyError)"

definition sq :: char where "sq = CHR 0x27"

section \<open>Lineage\<close>

text \<open>
  \<open>get_lineage\<close>. Each direction has its own \<open>try\<close> block around the decoding of the field
  and the list comprehension: whatever is raised there leaves the list of that direction
  empty. \<open>json.loads\<close> raises \<open>TypeError\<close> on a value that is not a str.
\<close>

definition json_loads :: "(string \<Rightarrow> py_error + json) \<Rightarrow> json \<Rightarrow> py_error + json" where
  "json_loads loads v = (case v of JStr s \<Rightarrow> loads s | _ \<Rightarrow> Inl TypeError)"

definition lineage_entity :: "json \<Rightarrow> json" where
  "lineage_entity item =
     JObj [(''key'', case item of JObj d \<Rightarrow> dict_get d ''key'' (JStr '''') | _ \<Rightarrow> item),
           (''level'', case item of JObj d \<Rightarrow> dict_get d ''level'' (JInt 1) | _ \<Rightarrow> JInt 1),
           (''source'', JStr ''optimusdb''),
           (''badges'', JArr [])]"

definition lineage_entities :: "(string \<Rightarrow> py_error + json) \<Rightarrow> json \<Rightarrow> json list" where
  "lineage_entities loads lineage_str =
     (if truthy lineage_str then
        (case bnd (json_loads loads lineage_str) py_iter of
           Inl e \<Rightarrow> []
         | Inr items \<Rightarrow> map lineage_entity items)
      else [])"

text \<open>\<open>records[0].get(field, "")\<close> stands outside the \<open>try\<close> block of the direction.\<close>

definition direction_entities ::
    "(string \<Rightarrow> py_error + json) \<Rightarrow> json \<Rightarrow> string \<Rightarrow> py_error + json list" where
  "direction_entities loads records field =
     bnd (py_first records) (\<lambda>first_record.
     bnd (py_get first_record field (JStr '''')) (\<lambda>lineage_str.
       Inr (lineage_entities loads lineage_str)))"

definition lineage_result :: "json list \<Rightarrow> json list \<Rightarrow> int \<Rightarrow> string \<Rightarrow> string \<Rightarrow> json" where
  "lineage_result upstream downstream depth direction id' =
     JObj [(''upstream_entities'', JArr upstream),
           (''downstream_entities'', JArr downstream),
           (''depth'', JInt depth),
           (''direction'', JStr direction),
           (''key'', JStr id')]"

definition lineage_sql :: "string \<Rightarrow> string \<Rightarrow> string" where
  "lineage_sql schema name =
     ''SELECT lineage_upstream, lineage_downstream FROM datacatalog WHERE metadata_type=''
       @ [sq] @ schema @ [sq] @ '' AND name='' @ [sq] @ name @ [sq] @ '';''"

definition get_lineage ::
    "(string \<Rightarrow> py_error + json) \<Rightarrow> (string \<Rightarrow> py_error + response)
       \<Rightarrow> string \<Rightarrow> string \<Rightarrow> string \<Rightarrow> int \<Rightarrow> json" where
  "get_lineage loads post id' resource_type direction depth =
     (case
        (let parsed = parse_table_uri id' in
         bnd (py_item parsed ''schema'') (\<lambda>schema.
         bnd (py_item parsed ''name'') (\<lambda>name.
         bnd (reply_records (execute_sql loads post (lineage_sql schema name))) (\<lambda>records.
           if \<not> truthy records then Inr (lineage_result [] [] depth direction id')
           else
             bnd (if direction \<in> set [''upstream'', ''both'']
                  then direction_entities loads records ''lineage_upstream'' else Inr [])
               (\<lambda>upstream.
             bnd (if direction \<in> set [''downstream'', ''both'']
                  then direction_entities loads records ''lineage_downstream'' else Inr [])
               (\<lambda>downstream.
               Inr (lineage_result upstream downstream depth direction id')))))))
      of
        Inl e \<Rightarrow> lineage_result [] [] depth direction id'
      | Inr lineage \<Rightarrow> lineage)"

text \<open>A backend for the examples: the upstream field of its record is not JSON, the
  downstream field is a JSON list of a dict and a str.\<close>

definition downstream_text :: string where
  "downstream_text = ''[{'' @ json_quote ''key'' @ '': ''
     @ json_quote ''optimusdb://default.sales/invoices'' @ '', '' @ json_quote ''level''
     @ '': 2}, '' @ json_quote ''optimusdb://default.sales/refunds'' @ '']''"

definition lineage_record :: pydict where
  "lineage_record =
     [(''lineage_upstream'', JStr ''[broken''), (''lineage_downstream'', JStr downstream_text)]"

definition lineage_body :: string where
  "lineage_body = ''{'' @ json_quote ''data'' @ '': {'' @ json_quote ''records'' @ '': [{''
     @ json_quote ''lineage_upstream'' @ '': '' @ json_quote ''[broken'' @ '', ''
     @ json_quote ''lineage_downstream'' @ '': '' @ json_quote downstream_text @ ''}]}}''"

definition lineage_table :: "(string \<times> json) list" where
  "lineage_table =
     [(lineage_body, reply_of [JObj lineage_record]),
      (downstream_text,
       JArr [JObj [(''key'', JStr ''optimusdb://default.sales/invoices''), (''level'', JInt 2)],
             JStr ''optimusdb://default.sales/refunds''])]"

definition lineage_loads :: "string \<Rightarrow> py_error + json" where
  "lineage_loads t = (case map_of lineage_table t of Some v \<Rightarrow> Inr v | None \<Rightarrow> Inl JSONDecodeError)"

definition lineage_post :: "string \<Rightarrow> py_error + response" where
  "lineage_post sql = Inr (Response True lineage_body)"

section \<open>Users\<close>

text \<open>
  \<open>get_user\<close>. The response is parsed whatever its status is. The dict that is returned
  reads nine fields of the first record with \<open>get\<close>, which raises on a record that is not a
  dict; every exception gives the default user.
\<close>

definition user_query :: "string \<Rightarrow> string" where
  "user_query id' = ''SELECT * FROM users WHERE user_id='' @ [sq] @ id' @ [sq] @ '' LIMIT 1;''"

definition default_user :: "string \<Rightarrow> json" where
  "default_user id' =
     JObj [(''email'', JStr (id' @ ''@company.com'')),
           (''user_id'', JStr id'),
           (''display_name'', JStr id'),
           (''profile_url'', JStr ''''),
           (''is_active'', JBool True),
           (''github_username'', JStr ''''),
           (''team_name'', JStr ''''),
           (''slack_id'', JStr ''''),
           (''employee_type'', JStr '''')]"

definition user_of :: "string \<Rightarrow> json \<Rightarrow> py_error + json" where
  "user_of id' user_data =
     (case user_data of
        JObj d \<Rightarrow>
          Inr (JObj [(''email'', dict_get d ''email'' (JStr (id' @ ''@company.com''))),
                     (''user_id'', dict_get d ''user_id'' (JStr id')),
                     (''display_name'', dict_get d ''display_name'' (JStr id')),
                     (''profile_url'', dict_get d ''profile_url'' (JStr '''')),
                     (''is_active'', dict_get d ''is_active'' (JBool True)),
                     (''github_username'', dict_get d ''github_username'' (JStr '''')),
                     (''team_name'', dict_get d ''team_name'' (JStr '''')),
                     (''slack_id'', dict_get d ''slack_id'' (JStr '''')),
                     (''employee_type'', dict_get d ''employee_type'' (JStr ''''))])
      | _ \<Rightarrow> Inl AttributeError)"

definition get_user ::
    "(string \<Rightarrow> py_error + json) \<Rightarrow> (string \<Rightarrow> py_error + response) \<Rightarrow> string \<Rightarrow> json" where
  "get_user loads post id' =
     (case
        bnd (post (user_query id')) (\<lambda>response.
        bnd (reply_records (parse_optimusdb_response loads response)) (\<lambda>records.
          if \<not> truthy records then Inr (default_user id')
          else bnd (py_first records) (user_of id')))
      of
        Inl e \<Rightarrow> default_user id'
      | Inr user \<Rightarrow> user)"

definition user_keys :: "string list" where
  "user_keys = [''email'', ''user_id'', ''display_name'', ''profile_url'', ''is_active'',
                ''github_username'', ''team_name'', ''slack_id'', ''employee_type'']"

text \<open>Backends for the examples: one that cannot be reached, one without a record for the
  user, one with a record.\<close>

definition failing_post :: "string \<Rightarrow> py_error + response" where
  "failing_post sql = Inl RequestException"

definition no_user_body :: string where
  "no_user_body = ''{'' @ json_quote ''data'' @ '': {'' @ json_quote ''records'' @ '': []}}''"

definition user_body :: string where
  "user_body = ''{'' @ json_quote ''data'' @ '': {'' @ json_quote ''records'' @ '': [{''
     @ json_quote ''user_id'' @ '': '' @ json_quote ''alice'' @ '', ''
     @ json_quote ''team_name'' @ '': '' @ json_quote ''data'' @ ''}]}}''"

definition user_loads :: "string \<Rightarrow> py_error + json" where
  "user_loads t =
     (case map_of [(no_user_body, reply_of []),
                   (user_body, reply_of [JObj [(''user_id'', JStr ''alice''),
                                               (''team_name'', JStr ''data'')]])] t of
        Some v \<Rightarrow> Inr v
      | None \<Rightarrow> Inl JSONDecodeError)"

definition no_user_post :: "string \<Rightarrow> py_error + response" where
  "no_user_post sql = Inr (Response True no_user_body)"

definition user_post :: "string \<Rightarrow> py_error + response" where
  "user_post sql = Inr (Response True user_body)"


section \<open>Properties of the normaliser\<close>

subsection \<open>Unwrapping\<close>

lemma unwrap_loop_not_str:
  "\<forall>s. v \<noteq> JStr s \<Longrightarrow> unwrap_loop loads v a = Fell_through v"
  by (cases v) auto

lemma wrapped_Suc:
  "wrapped loads (Suc n) t v \<Longrightarrow> \<exists>s. loads t = Inr (JStr s) \<and> wrapped loads n s v"
  by (auto split: sum.splits json.splits)

lemma unwrap_loop_reaches:
  "wrapped loads n s (JObj d) \<Longrightarrow> a + n < max_unwrap_attempts \<Longrightarrow>
   unwrap_loop loads (JStr s) a = Fell_through (JObj d)"
proof (induction n arbitrary: s a)
  case 0
  then show ?case by (simp add: unwrap_loop_not_str)
next
  case (Suc n)
  from wrapped_Suc [OF Suc.prems(1)] obtain s' where
    s': "loads s = Inr (JStr s')" "wrapped loads n s' (JObj d)" by blast
  from Suc.prems(2) have "(a + 1) + n < max_unwrap_attempts" by simp
  from Suc.IH [OF s'(2) this]
  have "unwrap_loop loads (JStr s') (a + 1) = Fell_through (JObj d)" .
  with s'(1) Suc.prems(2) show ?case by simp
qed

lemma unwrap_loop_exhausted:
  "wrapped loads n s v \<Longrightarrow> max_unwrap_attempts \<le> a + n \<Longrightarrow>
   \<exists>s'. unwrap_loop loads (JStr s) a = Fell_through (JStr s')"
proof (induction n arbitrary: s a)
  case 0
  then show ?case by simp
next
  case (Suc n)
  from wrapped_Suc [OF Suc.prems(1)] obtain s' where
    s': "loads s = Inr (JStr s')" "wrapped loads n s' v" by blast
  show ?case
  proof (cases "a < max_unwrap_attempts")
    case True
    from Suc.prems(2) have "max_unwrap_attempts \<le> (a + 1) + n" by simp
    from Suc.IH [OF s'(2) this]
    obtain s'' where "unwrap_loop loads (JStr s') (a + 1) = Fell_through (JStr s'')" by blast
    with s'(1) True show ?thesis by simp
  next
    case False
    then show ?thesis by simp
  qed
qed

lemma unwrap_loop_Returned:
  "unwrap_loop loads v a = Returned r \<Longrightarrow> \<exists>d. r = JObj d"
proof (induction loads v a rule: unwrap_loop.induct)
  case (1 loads result attempts)
  show ?case
  proof (cases result)
    case (JStr s)
    show ?thesis
    proof (cases "attempts < max_unwrap_attempts")
      case True
      show ?thesis
      proof (cases "loads s")
        case (Inl e)
        with JStr True "1.prems" show ?thesis by (auto split: if_splits)
      next
        case (Inr r')
        with JStr True "1.prems" have "unwrap_loop loads r' (attempts + 1) = Returned r" by simp
        with "1.IH" [OF JStr True Inr] show ?thesis by simp
      qed
    next
      case False
      with JStr "1.prems" show ?thesis by simp
    qed
  qed (use "1.prems" in simp_all)
qed

lemma parse_returns_mapping: "\<exists>d. parse_optimusdb_response loads resp = JObj d"
proof (cases "loads (body resp)")
  case (Inl e)
  then show ?thesis by (simp add: parse_optimusdb_response_def empty_reply_def)
next
  case (Inr result0)
  show ?thesis
  proof (cases "unwrap_loop loads result0 0")
    case (Returned r)
    with unwrap_loop_Returned [OF Returned] Inr show ?thesis
      by (auto simp: parse_optimusdb_response_def)
  next
    case (Raised e)
    with Inr show ?thesis by (simp add: parse_optimusdb_response_def empty_reply_def)
  next
    case (Fell_through result)
    show ?thesis
    proof (cases result)
      case (JObj d)
      with Inr Fell_through show ?thesis
        by (simp add: parse_optimusdb_response_def empty_reply_def)
    qed (use Inr Fell_through in \<open>simp_all add: parse_optimusdb_response_def empty_reply_def\<close>)
  qed
qed

lemma parse_plain:
  assumes "loads (body resp) = Inr (JObj d)" and "has_key d ''data'' \<or> has_key d ''records''"
  shows "parse_optimusdb_response loads resp = JObj d"
  using assms by (auto simp: parse_optimusdb_response_def)

lemma parse_within_budget:
  assumes "wrapped loads n (body resp) (reply_of R)" and "n \<le> 5"
  shows "parse_optimusdb_response loads resp = reply_of R"
proof (cases n)
  case 0
  with assms have "loads (body resp) = Inr (reply_of R)" by simp
  then show ?thesis
    by (simp add: reply_of_def parse_plain has_key_def)
next
  case (Suc k)
  with assms(1) wrapped_Suc obtain s where
    s: "loads (body resp) = Inr (JStr s)" "wrapped loads k s (reply_of R)" by blast
  from assms(2) Suc have "0 + k < max_unwrap_attempts"
    by (simp add: max_unwrap_attempts_def)
  with s(2) have "unwrap_loop loads (JStr s) 0 = Fell_through (reply_of R)"
    unfolding reply_of_def by (rule unwrap_loop_reaches)
  with s(1) show ?thesis
    by (simp add: parse_optimusdb_response_def reply_of_def has_key_def)
qed

lemma parse_beyond_budget:
  assumes "wrapped loads n (body resp) v" and "6 \<le> n"
  shows "parse_optimusdb_response loads resp = empty_reply"
proof -
  from assms(2) obtain k where n: "n = Suc k" and k: "5 \<le> k" by (cases n) auto
  with assms(1) wrapped_Suc obtain s where
    s: "loads (body resp) = Inr (JStr s)" "wrapped loads k s v" by blast
  from k have "max_unwrap_attempts \<le> 0 + k" by (simp add: max_unwrap_attempts_def)
  from unwrap_loop_exhausted [OF s(2) this]
  obtain s' where "unwrap_loop loads (JStr s) 0 = Fell_through (JStr s')" by blast
  with s(1) show ?thesis by (simp add: parse_optimusdb_response_def)
qed

lemma search_parse_wrapped:
  assumes "wrapped loads n (body resp) (reply_of R)"
  shows "search_parse_optimusdb_response loads resp = (if n \<le> 1 then reply_of R else empty_reply)"
proof -
  consider "n = 0" | "n = 1" | k where "n = Suc (Suc k)"
    by (cases n; cases "n - 1") auto
  then show ?thesis
  proof cases
    case 1
    with assms show ?thesis
      by (simp add: search_parse_optimusdb_response_def reply_of_def)
  next
    case 2
    with assms wrapped_Suc [of loads 0 "body resp" "reply_of R"] show ?thesis
      by (auto simp: search_parse_optimusdb_response_def reply_of_def)
  next
    case 3
    with assms wrapped_Suc [of loads "Suc k" "body resp" "reply_of R"] obtain s where
      s: "loads (body resp) = Inr (JStr s)" "wrapped loads (Suc k) s (reply_of R)" by blast
    from wrapped_Suc [OF s(2)] obtain s' where "loads s = Inr (JStr s')" by blast
    with s(1) 3 show ?thesis by (simp add: search_parse_optimusdb_response_def)
  qed
qed

lemma reply_records_reply_of: "reply_records (reply_of R) = Inr (JArr R)"
  by (simp add: reply_records_def reply_of_def bnd_def dict_get_def)

lemma reply_records_empty_reply: "reply_records empty_reply = Inr (JArr [])"
  by (simp add: reply_records_def empty_reply_def bnd_def dict_get_def)




text \<open>
  C2 (as the code has it). Normalisation always returns a mapping, and a decoded reply that is
  a mapping with a \<open>data\<close> or a \<open>records\<close> key is returned as it is: the records array is not
  filtered, so an element that is not a mapping stays in it.
\<close>

theorem normalize_keeps_reply:
  "(\<exists>d. parse_optimusdb_response loads resp = JObj d)
   \<and> (loads (body resp) = Inr (JObj d) \<and> (has_key d ''data'' \<or> has_key d ''records'')
        \<longrightarrow> parse_optimusdb_response loads resp = JObj d)"
  using parse_returns_mapping [of loads resp] parse_plain [of loads resp d] by blast

theorem normalize_keeps_reply_witness:
  "sample_loads mixed_body
     = Inr (JObj [(''data'', JObj [(''records'',
          JArr [JStr ''orders'', JNull, JObj [(''name'', JStr ''orders'')]])])])
   \<and> parse_optimusdb_response sample_loads (Response True mixed_body)
     = JObj [(''data'', JObj [(''records'',
          JArr [JStr ''orders'', JNull, JObj [(''name'', JStr ''orders'')]])])]"
proof -
  have h: "sample_loads (body (Response True mixed_body))
     = Inr (JObj [(''data'', JObj [(''records'',
          JArr [JStr ''orders'', JNull, JObj [(''name'', JStr ''orders'')]])])])"
    by code_simp
  have k: "has_key [(''data'', JObj [(''records'',
          JArr [JStr ''orders'', JNull, JObj [(''name'', JStr ''orders'')]])])] ''data''"
    by code_simp
  show ?thesis
    using normalize_keeps_reply [of sample_loads "Response True mixed_body"
        "[(''data'', JObj [(''records'',
          JArr [JStr ''orders'', JNull, JObj [(''name'', JStr ''orders'')]])])]"] h k
    by simp
qed

text \<open>C2 as stated fails: a str and a null in the records array are returned to the caller.\<close>

theorem non_mapping_kept_counterexample:
  "sample_loads mixed_body
     = Inr (reply_of [JStr ''orders'', JNull, JObj [(''name'', JStr ''orders'')]])
   \<and> reply_records (parse_optimusdb_response sample_loads (Response True mixed_body))
     = Inr (JArr [JStr ''orders'', JNull, JObj [(''name'', JStr ''orders'')]])"
  by code_simp


section \<open>Properties of the table keys\<close>

lemma startswith_append: "startswith (p @ s) p"
  by (induction p) auto

lemma startswith_Nil [simp]: "startswith s []"
  by (cases s) auto

lemma contains_Nil [simp]: "contains s []"
  by (cases s) auto

lemma find_sep_None_iff: "sep \<noteq> [] \<Longrightarrow> find_sep sep s = None \<longleftrightarrow> \<not> contains s sep"
  by (induction s) auto


text \<open>A prefix of a concatenation lies in the first part or runs over its end.\<close>

lemma startswith_append_cases:
  "startswith (a @ r) p \<Longrightarrow> startswith a p \<or> (\<exists>q. p = a @ q \<and> q \<noteq> [] \<and> startswith r q)"
proof (induction a arbitrary: p)
  case Nil
  then show ?case by (cases p) auto
next
  case (Cons c a)
  show ?case
  proof (cases p)
    case Nil
    then show ?thesis by simp
  next
    case (Cons x p')
    with Cons.prems have "c = x" "startswith (a @ r) p'" by auto
    with Cons.IH [of p'] Cons show ?thesis by auto
  qed
qed

lemma contains_skip:
  "set m \<inter> set p = {} \<Longrightarrow> p \<noteq> [] \<Longrightarrow> contains (m @ b) p = contains b p"
proof (induction m)
  case Nil
  show ?case by simp
next
  case (Cons c m)
  then have "\<not> startswith (c # m @ b) p" by (cases p) auto
  with Cons show ?case by simp
qed

lemma startswith_hd: "startswith r q \<Longrightarrow> q \<noteq> [] \<Longrightarrow> r \<noteq> [] \<and> hd r = hd q"
  by (cases q; cases r) auto

lemma contains_apart:
  assumes "\<not> contains a p" and "\<not> contains b p" and "m \<noteq> []" and "set m \<inter> set p = {}"
  shows "\<not> contains (a @ m @ b) p"
  using assms(1)
proof (induction a)
  case Nil
  from assms(1) have "p \<noteq> []" by auto
  with assms(2,4) show ?case by (simp add: contains_skip)
next
  case (Cons c a)
  from Cons.prems have c1: "\<not> startswith (c # a) p" and c2: "\<not> contains a p" by auto
  have "\<not> startswith ((c # a) @ m @ b) p"
  proof
    assume "startswith ((c # a) @ m @ b) p"
    from startswith_append_cases [OF this] c1 obtain q where
      q: "p = (c # a) @ q" "q \<noteq> []" "startswith (m @ b) q" by blast
    from startswith_hd [OF q(3) q(2)] assms(3) have "hd m = hd q" by simp
    with q(1,2) assms(3) have "hd m \<in> set p" "hd m \<in> set m"
      using hd_in_set [of q] hd_in_set [of m] by auto
    with assms(4) show False by auto
  qed
  with Cons.IH [OF c2] show ?case by simp
qed

text \<open>Spaces turned into underscores: a text without either is found in the result exactly
  where it was in the original.\<close>

lemma startswith_map:
  "a \<notin> set p \<Longrightarrow> b \<notin> set p \<Longrightarrow>
   startswith (map (\<lambda>c. if c = a then b else c) s) p = startswith s p"
  by (induction s p rule: startswith.induct) auto

lemma contains_map:
  assumes "a \<notin> set p" and "b \<notin> set p"
  shows "contains (map (\<lambda>c. if c = a then b else c) s) p = contains s p"
proof (induction s)
  case Nil
  show ?case by simp
next
  case (Cons c s)
  from startswith_map [OF assms, of "c # s"] Cons show ?case by simp
qed


lemma find_sep_here: "sep \<noteq> [] \<Longrightarrow> find_sep sep (sep @ b) = Some ([], b)"
  by (cases sep) (simp_all add: startswith_append)

lemma find_sep_scheme:
  "\<not> contains a ''://'' \<Longrightarrow> find_sep ''://'' (a @ ''://'' @ b) = Some (a, b)"
proof (induction a)
  case Nil
  show ?case using find_sep_here [of "''://''" b] by simp
next
  case (Cons c a)
  from Cons.prems have c1: "\<not> startswith (c # a) ''://''" and c2: "\<not> contains a ''://''"
    by auto
  have "\<not> startswith ((c # a) @ ''://'' @ b) ''://''"
  proof
    assume "startswith ((c # a) @ ''://'' @ b) ''://''"
    from startswith_append_cases [OF this] c1 obtain q where
      q: "''://'' = (c # a) @ q" "q \<noteq> []" "startswith (''://'' @ b) q" by blast
    from startswith_hd [OF q(3) q(2)] have "hd q = CHR '':''" by simp
    with q(1,2) show False by (cases q) (auto simp: Cons_eq_append_conv)
  qed
  with Cons.IH [OF c2] show ?case by simp
qed

lemma replace_absent: "\<not> contains s old \<Longrightarrow> replace old new s = s"
proof -
  assume a: "\<not> contains s old"
  then have "old \<noteq> []" by auto
  with a have "find_sep old s = None" by (simp add: find_sep_None_iff)
  then show ?thesis by (subst replace.simps) simp
qed

lemma split_absent: "\<not> contains s sep \<Longrightarrow> split sep s = [s]"
proof -
  assume a: "\<not> contains s sep"
  then have "sep \<noteq> []" by auto
  with a have "find_sep sep s = None" by (simp add: find_sep_None_iff)
  then show ?thesis by (subst split.simps) simp
qed

lemma split_scheme:
  assumes "\<not> contains a ''://''" and "\<not> contains b ''://''"
  shows "split ''://'' (a @ ''://'' @ b) = [a, b]"
  by (subst split.simps) (simp add: find_sep_scheme [OF assms(1)] split_absent [OF assms(2)]
        del: append.simps)

lemma startswith_mem: "startswith s (x # xs) \<Longrightarrow> x \<in> set s"
  by (cases s) auto

lemma find_sep_first:
  "x \<notin> set a \<Longrightarrow> find_sep (x # xs) (a @ (x # xs) @ b) = Some (a, b)"
proof (induction a)
  case Nil
  show ?case by (simp add: startswith_append)
next
  case (Cons c a)
  then have "\<not> startswith ((c # a) @ (x # xs) @ b) (x # xs)" by auto
  with Cons show ?case by simp
qed

lemma contains_append: "contains (a @ p @ b) p"
proof (induction a)
  case Nil
  show ?case using startswith_append [of p b] by (cases "p @ b") auto
next
  case (Cons c a)
  then show ?case by simp
qed

lemma split1_two: "x \<notin> set a \<Longrightarrow> split1 (x # xs) (a @ (x # xs) @ b) = [a, b]"
  using find_sep_first [of x a xs b] by (simp add: split1_def)

lemma replace_char_Cons:
  "replace [a] new (c # cs) = (if c = a then new else [c]) @ replace [a] new cs"
proof (cases "c = a")
  case True
  then show ?thesis by (subst replace.simps) simp
next
  case False
  show ?thesis
  proof (cases "find_sep [a] cs")
    case None
    with False show ?thesis
      by (subst replace.simps, subst (2) replace.simps) simp
  next
    case (Some p)
    with False show ?thesis
      by (subst replace.simps, subst (2) replace.simps) (auto split: prod.splits)
  qed
qed

lemma replace_char: "replace [a] [b] s = map (\<lambda>c. if c = a then b else c) s"
proof (induction s)
  case Nil
  show ?case by (subst replace.simps) simp
next
  case (Cons c cs)
  then show ?case by (simp add: replace_char_Cons)
qed

lemma replace_back:
  "b \<notin> set s \<Longrightarrow> replace [b] [a] (replace [a] [b] s) = s"
  by (induction s) (auto simp: replace_char)

lemma strip_id:
  assumes "s \<noteq> []" and "\<not> is_space (hd s)" and "\<not> is_space (last s)"
  shows "strip s = s"
proof -
  from assms have 1: "dropWhile is_space s = s" by (cases s) auto
  from assms have "rev s \<noteq> []" "\<not> is_space (hd (rev s))" by (auto simp: hd_rev)
  then have "dropWhile is_space (rev s) = rev s" by (cases "rev s") auto
  with 1 show ?thesis by (simp add: strip_def)
qed

lemma uri_schema_name_key:
  assumes "CHR ''/'' \<notin> set s"
  shows "uri_schema_name (''default.'' @ s @ ''/'' @ n) = Inr (s, n)"
proof -
  let ?cs = "''default.'' @ s"
  have c1: "contains (?cs @ ''/'' @ n) ''/''" by (rule contains_append)
  from assms have "CHR ''/'' \<notin> set ?cs" by simp
  then have s1: "split1 ''/'' (?cs @ ''/'' @ n) = [?cs, n]" by (rule split1_two)
  have c2: "contains (''default'' @ ''.'' @ s) ''.''" by (rule contains_append)
  have "CHR ''.'' \<notin> set ''default''" by simp
  then have s2: "split1 ''.'' (''default'' @ ''.'' @ s) = [''default'', s]" by (rule split1_two)
  have e: "''default.'' @ s @ ''/'' @ n = ?cs @ ''/'' @ n" "?cs = ''default'' @ ''.'' @ s"
    by simp_all
  show ?thesis
    unfolding uri_schema_name_def e(1)
    using c1 s1 c2 s2 unfolding e(2) by (simp del: contains.simps append.simps)
qed

lemma parse_table_uri_key:
  assumes d: "d \<noteq> []" "\<not> is_space (hd d)" "\<not> contains d ''://''"
    and s: "CHR ''/'' \<notin> set s"
    and n: "n \<noteq> []" "\<not> is_space (last n)"
    and k: "\<not> contains (d @ ''://default.'' @ s @ ''/'' @ n) ''%20''"
           "\<not> contains (''default.'' @ s @ ''/'' @ n) ''://''"
  shows "parse_table_uri (d @ ''://default.'' @ s @ ''/'' @ n)
         = table_ref d (replace ''_'' '' '' s) (replace ''_'' '' '' n)"
proof -
  let ?rest = "''default.'' @ s @ ''/'' @ n"
  let ?key = "d @ ''://default.'' @ s @ ''/'' @ n"
  have e: "?key = d @ ''://'' @ ?rest" by simp
  from d(1,2) n(1,2) have "strip ?key = ?key" by (intro strip_id) auto
  moreover from k(1) have "replace ''%20'' '' '' ?key = ?key" by (rule replace_absent)
  moreover from d(3) k(2) have "split ''://'' (d @ ''://'' @ ?rest) = [d, ?rest]"
    by (rule split_scheme)
  then have "split ''://'' ?key = [d, ?rest]" unfolding e .
  moreover note uri_schema_name_key [OF s, of n]
  ultimately show ?thesis
    unfolding parse_table_uri_def by (simp del: append.simps)
qed

text \<open>
  C3. The decoder undoes the encoder on schema and name, and gives back the database with its
  spaces still turned into underscores: the encoder rewrites spaces in all three parts, the
  decoder restores them in schema and name only. This holds when the three parts are
  non-empty, the database does not start and the name does not end with whitespace other than
  a space, no part contains \<open>%20\<close>, neither the database nor the text \<open>schema/name\<close> contains
  \<open>://\<close>, the schema has no slash, and schema and name have no underscore. So the round trip
  of the claim holds for these triples exactly when the database has no space.
\<close>

theorem table_key_decodes:
  assumes "database \<noteq> []" and "schema \<noteq> []" and "name \<noteq> []"
    and "is_space (hd database) \<longrightarrow> hd database = CHR '' ''"
    and "is_space (last name) \<longrightarrow> last name = CHR '' ''"
    and "\<not> contains database ''%20''" and "\<not> contains schema ''%20''"
    and "\<not> contains name ''%20''"
    and "\<not> contains database ''://''" and "\<not> contains (schema @ ''/'' @ name) ''://''"
    and "CHR ''/'' \<notin> set schema"
    and "CHR ''_'' \<notin> set schema" and "CHR ''_'' \<notin> set name"
  shows "parse_table_uri (build_table_key database schema name)
         = table_ref (replace '' '' ''_'' database) schema name"
proof -
  let ?f = "\<lambda>c. if c = CHR '' '' then CHR ''_'' else c"
  let ?d = "replace '' '' ''_'' database"
  let ?s = "replace '' '' ''_'' schema"
  let ?n = "replace '' '' ''_'' name"
  have sp: "\<not> is_space CHR ''_''" by (simp add: is_space_def)
  have d': "?d = map ?f database" and s': "?s = map ?f schema" and n': "?n = map ?f name"
    by (rule replace_char)+
  from assms(1,2,3) have key: "build_table_key database schema name
      = ?d @ ''://default.'' @ ?s @ ''/'' @ ?n"
    by (simp add: build_table_key_def)
  from assms(1) have d1: "?d \<noteq> []" "hd ?d = ?f (hd database)"
    unfolding d' by (simp_all add: hd_map)
  with assms(4) sp have d2: "\<not> is_space (hd ?d)" by auto
  from assms(3) have n1: "?n \<noteq> []" "last ?n = ?f (last name)"
    unfolding n' by (simp_all add: last_map)
  with assms(5) sp have n2: "\<not> is_space (last ?n)" by auto
  have p: "\<not> contains ?d ''%20''" "\<not> contains ?s ''%20''" "\<not> contains ?n ''%20''"
    unfolding d' s' n' using assms(6,7,8) by (simp_all add: contains_map del: contains.simps)
  from p(2,3) have "\<not> contains (?s @ ''/'' @ ?n) ''%20''"
    by (rule contains_apart) simp_all
  with p(1) have "\<not> contains (?d @ ''://default.'' @ (?s @ ''/'' @ ?n)) ''%20''"
    by (rule contains_apart) simp_all
  then have k1: "\<not> contains (?d @ ''://default.'' @ ?s @ ''/'' @ ?n) ''%20''" by simp
  from assms(9) have d3: "\<not> contains ?d ''://''"
    unfolding d' by (simp add: contains_map del: contains.simps)
  have m: "map ?f (schema @ ''/'' @ name) = ?s @ ''/'' @ ?n" unfolding s' n' by simp
  from assms(10) have "\<not> contains (map ?f (schema @ ''/'' @ name)) ''://''"
    by (subst contains_map) simp_all
  then have "\<not> contains (?s @ ''/'' @ ?n) ''://''" unfolding m .
  moreover have "contains (''default.'' @ (?s @ ''/'' @ ?n)) ''://''
      = contains (?s @ ''/'' @ ?n) ''://''"
    by (rule contains_skip) simp_all
  ultimately have k2: "\<not> contains (''default.'' @ ?s @ ''/'' @ ?n) ''://''" by simp
  from assms(11) have sl: "CHR ''/'' \<notin> set ?s" unfolding s' by auto
  from assms(12) have bs: "replace ''_'' '' '' ?s = schema" by (rule replace_back)
  from assms(13) have bn: "replace ''_'' '' '' ?n = name" by (rule replace_back)
  show ?thesis
    unfolding key
    using parse_table_uri_key [OF d1(1) d2 d3 sl n1(1) n2 k1 k2] unfolding bs bn .
qed

theorem table_key_decodes_witness:
  "parse_table_uri (build_table_key ''sales db'' ''public'' ''orders'')
     = table_ref ''sales_db'' ''public'' ''orders''
   \<and> table_ref ''sales_db'' ''public'' ''orders'' \<noteq> table_ref ''sales db'' ''public'' ''orders''
   \<and> parse_table_uri (build_table_key ''my:db'' ''Type A'' ''a:b 50%'')
     = table_ref ''my:db'' ''Type A'' ''a:b 50%''"
proof -
  have h: "''sales db'' \<noteq> []" "''public'' \<noteq> []" "''orders'' \<noteq> []"
    "is_space (hd ''sales db'') \<longrightarrow> hd ''sales db'' = CHR '' ''"
    "is_space (last ''orders'') \<longrightarrow> last ''orders'' = CHR '' ''"
    "\<not> contains ''sales db'' ''%20''" "\<not> contains ''public'' ''%20''"
    "\<not> contains ''orders'' ''%20''"
    "\<not> contains ''sales db'' ''://''" "\<not> contains (''public'' @ ''/'' @ ''orders'') ''://''"
    "CHR ''/'' \<notin> set ''public''"
    "CHR ''_'' \<notin> set ''public''" "CHR ''_'' \<notin> set ''orders''"
    by code_simp+
  have g: "''my:db'' \<noteq> []" "''Type A'' \<noteq> []" "''a:b 50%'' \<noteq> []"
    "is_space (hd ''my:db'') \<longrightarrow> hd ''my:db'' = CHR '' ''"
    "is_space (last ''a:b 50%'') \<longrightarrow> last ''a:b 50%'' = CHR '' ''"
    "\<not> contains ''my:db'' ''%20''" "\<not> contains ''Type A'' ''%20''"
    "\<not> contains ''a:b 50%'' ''%20''"
    "\<not> contains ''my:db'' ''://''" "\<not> contains (''Type A'' @ ''/'' @ ''a:b 50%'') ''://''"
    "CHR ''/'' \<notin> set ''Type A''"
    "CHR ''_'' \<notin> set ''Type A''" "CHR ''_'' \<notin> set ''a:b 50%''"
    by code_simp+
  have r: "replace '' '' ''_'' ''sales db'' = ''sales_db''"
    "replace '' '' ''_'' ''my:db'' = ''my:db''"
    "table_ref ''sales_db'' ''public'' ''orders'' \<noteq> table_ref ''sales db'' ''public'' ''orders''"
    by code_simp+
  from table_key_decodes [OF h] table_key_decodes [OF g] r show ?thesis by simp
qed

section \<open>Properties of the table search\<close>

lemma bnd_Inr_iff: "bnd m f = Inr y \<longleftrightarrow> (\<exists>x. m = Inr x \<and> f x = Inr y)"
  by (cases m) (auto simp: bnd_def)

lemma bnd_Inr [simp]: "bnd (Inr x) f = f x"
  by (simp add: bnd_def)

lemma bnd_Inl [simp]: "bnd (Inl e) f = Inl e"
  by (simp add: bnd_def)

lemma score_all_sound:
  "score_all datasets q = Inr scored \<Longrightarrow> (s, d) \<in> set scored \<Longrightarrow>
   calculate_search_score d q = Inr s \<and> 0 < s \<and> d \<in> set datasets"
proof (induction datasets arbitrary: scored)
  case Nil
  then show ?case by simp
next
  case (Cons a datasets)
  from Cons.prems(1) obtain sc rest where
    sc: "calculate_search_score a q = Inr sc" and rest: "score_all datasets q = Inr rest"
    and scored: "scored = (if sc > 0 then (sc, a) # rest else rest)"
    by (auto simp: bnd_Inr_iff)
  show ?case
  proof (cases "(s, d) \<in> set rest")
    case True
    from Cons.IH [OF rest True] show ?thesis by simp
  next
    case False
    with Cons.prems(2) scored have "sc > 0" "s = sc" "d = a" by (auto split: if_splits)
    with sc show ?thesis by simp
  qed
qed

lemma score_all_empty_query: "score_all datasets [] = Inr []"
  by (induction datasets) (simp_all add: calculate_search_score_def)

lemma py_slice_subset: "set (py_slice xs i j) \<subseteq> set xs"
  unfolding py_slice_def Let_def
  using set_take_subset [of "slice_bound (length xs) j - slice_bound (length xs) i"
          "drop (slice_bound (length xs) i) xs"]
        set_drop_subset [of "slice_bound (length xs) i" xs]
  by blast

lemma results_scored:
  assumes "d \<in> set (results (get_table_by_search all_datasets query_term page))"
  shows "\<exists>datasets s. all_datasets = Inr datasets \<and> d \<in> set datasets
           \<and> calculate_search_score d (strip (lower query_term)) = Inr s \<and> 0 < s"
proof (cases all_datasets)
  case (Inl e)
  with assms show ?thesis by (simp add: get_table_by_search_def)
next
  case (Inr datasets)
  show ?thesis
  proof (cases "score_all datasets (strip (lower query_term))")
    case (Inl e)
    with Inr assms show ?thesis by (simp add: get_table_by_search_def)
  next
    case scored: (Inr scored)
    let ?m = "map snd (sort_key (\<lambda>item. - fst item) scored)"
    from assms Inr scored have "d \<in> set (py_slice ?m (page * page_size) (page * page_size + page_size))"
      by (simp add: get_table_by_search_def Let_def)
    with py_slice_subset [of ?m "page * page_size" "page * page_size + page_size"]
    have "d \<in> set ?m" by (rule subsetD)
    then obtain s where "(s, d) \<in> set scored" by auto
    from score_all_sound [OF scored this] Inr show ?thesis by blast
  qed
qed

lemma empty_query_results:
  assumes "strip (lower query_term) = []"
  shows "results (get_table_by_search all_datasets query_term page) = []
       \<and> total_results (get_table_by_search all_datasets query_term page) = 0"
proof (cases all_datasets)
  case (Inl e)
  then show ?thesis by (simp add: get_table_by_search_def)
next
  case (Inr datasets)
  with assms show ?thesis
    by (simp add: get_table_by_search_def score_all_empty_query py_slice_def)
qed


lemma strip_Nil: "strip [] = []"
  by (simp add: strip_def)

text \<open>
  C5. A dataset whose score for the query is zero is not among the returned results: every
  returned dataset has a positive score. The empty query gives every dataset the score zero,
  so for the empty query term, and for any term that is empty once lower-cased and stripped,
  the result list is empty.
\<close>

theorem zero_score_excluded:
  "(\<forall>d. calculate_search_score d (strip (lower query_term)) = Inr 0
         \<longrightarrow> d \<notin> set (results (get_table_by_search all_datasets query_term page)))
   \<and> (\<forall>d \<in> set (results (get_table_by_search all_datasets query_term page)).
         \<exists>s. calculate_search_score d (strip (lower query_term)) = Inr s \<and> 0 < s)
   \<and> calculate_search_score dataset [] = Inr 0
   \<and> results (get_table_by_search all_datasets [] page) = []
   \<and> total_results (get_table_by_search all_datasets [] page) = 0
   \<and> (strip (lower query_term) = []
         \<longrightarrow> results (get_table_by_search all_datasets query_term page) = [])"
proof -
  have pos: "\<exists>s. calculate_search_score d (strip (lower query_term)) = Inr s \<and> 0 < s"
    if "d \<in> set (results (get_table_by_search all_datasets query_term page))" for d
    using results_scored [OF that] by blast
  have zero: "d \<notin> set (results (get_table_by_search all_datasets query_term page))"
    if "calculate_search_score d (strip (lower query_term)) = Inr 0" for d
    using pos [of d] that by auto
  have "strip (lower []) = []" by (simp add: lower_def strip_Nil)
  moreover have "calculate_search_score dataset [] = Inr 0"
    by (simp add: calculate_search_score_def)
  ultimately show ?thesis
    using empty_query_results [of "[]"] empty_query_results [of query_term] pos zero
    by blast
qed

theorem zero_score_excluded_witness:
  "calculate_search_score unrelated_dataset (strip (lower ''Sales '')) = Inr 0
   \<and> unrelated_dataset \<notin> set (results (get_table_by_search
         (Inr [described_dataset, unrelated_dataset, sales_dataset ''sales_report''])
         ''Sales '' 0))
   \<and> results (get_table_by_search
         (Inr [described_dataset, unrelated_dataset, sales_dataset ''sales_report''])
         ''Sales '' 0)
       = [sales_dataset ''sales_report'', described_dataset]
   \<and> results (get_table_by_search
         (Inr [described_dataset, unrelated_dataset, sales_dataset ''sales_report''])
         [] 0) = []"
proof -
  have z: "calculate_search_score unrelated_dataset (strip (lower ''Sales '')) = Inr 0"
    by code_simp
  have r: "results (get_table_by_search
         (Inr [described_dataset, unrelated_dataset, sales_dataset ''sales_report''])
         ''Sales '' 0)
       = [sales_dataset ''sales_report'', described_dataset]"
    by code_simp
  from zero_score_excluded [of "''Sales ''"
      "Inr [described_dataset, unrelated_dataset, sales_dataset ''sales_report'']" 0 unrelated_dataset] z r
  show ?thesis by blast
qed

lemma dict_get_same:
  "map_of d2 k = map_of d1 k \<Longrightarrow> dict_get d2 k dflt = dict_get d1 k dflt"
  by (simp add: dict_get_def)

lemma schema_signal_nonneg: "schema_signal d q = Inr s \<Longrightarrow> 0 \<le> s"
  by (auto simp: schema_signal_def bnd_Inr_iff)

lemma tag_signal_nonneg: "tag_signal d q = Inr s \<Longrightarrow> 0 \<le> s"
  by (auto simp: tag_signal_def bnd_Inr_iff)

lemma description_signal_nonneg: "description_signal d q = Inr s \<Longrightarrow> 0 \<le> s"
  by (auto simp: description_signal_def bnd_Inr_iff)

lemma column_signal_nonneg: "column_signal d q = Inr s \<Longrightarrow> 0 \<le> s"
  by (auto simp: column_signal_def bnd_Inr_iff)

lemma database_signal_nonneg: "database_signal d q = Inr s \<Longrightarrow> 0 \<le> s"
  by (auto simp: database_signal_def bnd_Inr_iff)

lemma score_parts:
  assumes "q \<noteq> []" and "calculate_search_score d q = Inr a"
  obtains s1 s2 s3 s4 s5 s6 where
    "name_signal d q = Inr s1" "schema_signal d q = Inr s2" "tag_signal d q = Inr s3"
    "description_signal d q = Inr s4" "column_signal d q = Inr s5"
    "database_signal d q = Inr s6" "a = s1 + s2 + s3 + s4 + s5 + s6"
  using assms unfolding calculate_search_score_def by (auto simp: bnd_Inr_iff)

lemma score_of_parts:
  assumes "q \<noteq> []"
    "name_signal d q = Inr s1" "schema_signal d q = Inr s2" "tag_signal d q = Inr s3"
    "description_signal d q = Inr s4" "column_signal d q = Inr s5"
    "database_signal d q = Inr s6"
  shows "calculate_search_score d q = Inr (s1 + s2 + s3 + s4 + s5 + s6)"
  using assms by (simp add: calculate_search_score_def)

lemma schema_signal_cong:
  "map_of d2 ''schema'' = map_of d1 ''schema'' \<Longrightarrow> schema_signal d2 q = schema_signal d1 q"
  by (simp add: schema_signal_def dict_get_def)

lemma tag_signal_cong:
  "map_of d2 ''tags'' = map_of d1 ''tags'' \<Longrightarrow> tag_signal d2 q = tag_signal d1 q"
  by (simp add: tag_signal_def dict_get_def)

lemma description_signal_cong:
  "map_of d2 ''description'' = map_of d1 ''description'' \<Longrightarrow>
   description_signal d2 q = description_signal d1 q"
  by (simp add: description_signal_def dict_get_def)

lemma column_signal_cong:
  "map_of d2 ''column_names'' = map_of d1 ''column_names'' \<Longrightarrow>
   column_signal d2 q = column_signal d1 q"
  by (simp add: column_signal_def dict_get_def)

lemma database_signal_cong:
  "map_of d2 ''database'' = map_of d1 ''database'' \<Longrightarrow>
   database_signal d2 q = database_signal d1 q"
  by (simp add: database_signal_def dict_get_def)

lemma name_signal_exact:
  "map_of d ''name'' = Some (JStr n) \<Longrightarrow> lower n = q \<Longrightarrow> name_signal d q = Inr 100"
  by (simp add: name_signal_def dict_get_def)

lemma name_signal_prefix:
  "map_of d ''name'' = Some (JStr n) \<Longrightarrow> lower n \<noteq> q \<Longrightarrow> startswith (lower n) q \<Longrightarrow>
   name_signal d q = Inr 80"
  by (simp add: name_signal_def dict_get_def)



section \<open>Properties of the columns\<close>

lemma columns_loop_names:
  "columns_loop str_of m items k = Inr columns \<Longrightarrow>
   map (\<lambda>c. dict_get c ''name'' JNull) columns
     = map JStr (filter (\<lambda>n. \<not> startswith n ''_internal_'') (map fst items))"
proof (induction items arbitrary: k columns)
  case Nil
  then show ?case by simp
next
  case (Cons item items)
  obtain f v where item: "item = (f, v)" by (cases item)
  show ?case
  proof (cases "startswith f ''_internal_''")
    case True
    with Cons.prems item have "columns_loop str_of m items k = Inr columns" by simp
    from Cons.IH [OF this] True item show ?thesis by simp
  next
    case False
    with Cons.prems item obtain t rest where
      r: "columns_loop str_of m items (k + 1) = Inr rest"
      and c: "columns = column_entry f (title (replace ''_'' '' '' f)) t k
                 (display_value str_of v) # rest"
      by (auto simp: bnd_Inr_iff)
    from Cons.IH [OF r] False item c show ?thesis
      by (simp add: column_entry_def dict_get_def)
  qed
qed

lemma columns_loop_sort_order:
  "columns_loop str_of m items k = Inr columns \<Longrightarrow>
   map (\<lambda>c. dict_get c ''sort_order'' JNull) columns
     = map (\<lambda>i. JInt (int i)) [k..<k + length columns]"
proof (induction items arbitrary: k columns)
  case Nil
  then show ?case by simp
next
  case (Cons item items)
  obtain f v where item: "item = (f, v)" by (cases item)
  show ?case
  proof (cases "startswith f ''_internal_''")
    case True
    with Cons.prems item have "columns_loop str_of m items k = Inr columns" by simp
    from Cons.IH [OF this] show ?thesis .
  next
    case False
    with Cons.prems item obtain t rest where
      r: "columns_loop str_of m items (k + 1) = Inr rest"
      and c: "columns = column_entry f (title (replace ''_'' '' '' f)) t k
                 (display_value str_of v) # rest"
      by (auto simp: bnd_Inr_iff)
    have "[k..<k + length columns] = k # [k + 1..<(k + 1) + length rest]"
      unfolding c by (subst upt_rec) simp
    with Cons.IH [OF r] c show ?thesis
      by (simp add: column_entry_def dict_get_def)
  qed
qed

lemma simplify_type_varchar: "simplify_type (JStr ''varchar'') = Inr (JStr ''varchar'')"
  by code_simp

lemma columns_loop_varchar:
  "columns_loop str_of m items k = Inr columns \<Longrightarrow> c \<in> set columns \<Longrightarrow>
   dict_get c ''name'' JNull = JStr n \<Longrightarrow> map_of m n = None \<Longrightarrow>
   dict_get c ''col_type'' JNull = JStr ''varchar''"
proof (induction items arbitrary: k columns)
  case Nil
  then show ?case by simp
next
  case (Cons item items)
  obtain f v where item: "item = (f, v)" by (cases item)
  show ?case
  proof (cases "startswith f ''_internal_''")
    case True
    with Cons.prems(1) item have "columns_loop str_of m items k = Inr columns" by simp
    from Cons.IH [OF this Cons.prems(2,3,4)] show ?thesis .
  next
    case False
    with Cons.prems(1) item obtain t rest where
      t: "simplify_type (dict_get m f (JStr ''varchar'')) = Inr t"
      and r: "columns_loop str_of m items (k + 1) = Inr rest"
      and cs: "columns = column_entry f (title (replace ''_'' '' '' f)) t k
                 (display_value str_of v) # rest"
      by (auto simp: bnd_Inr_iff)
    show ?thesis
    proof (cases "c \<in> set rest")
      case True
      from Cons.IH [OF r True Cons.prems(3,4)] show ?thesis .
    next
      case False
      with Cons.prems(2) cs have ce: "c = column_entry f (title (replace ''_'' '' '' f)) t k
                 (display_value str_of v)" by simp
      with Cons.prems(3) have "f = n" by (simp add: column_entry_def dict_get_def)
      with Cons.prems(4) t have "t = JStr ''varchar''"
        by (simp add: dict_get_def simplify_type_varchar)
      with ce show ?thesis by (simp add: column_entry_def dict_get_def)
    qed
  qed
qed

lemma schema_map_loop_typed:
  "list_all schema_entry_typed cols \<Longrightarrow> \<forall>v \<in> snd ` set m. \<exists>t. v = JStr t \<Longrightarrow>
   \<exists>m'. schema_map_loop cols m = Inr m' \<and> (\<forall>v \<in> snd ` set m'. \<exists>t. v = JStr t)"
proof (induction cols arbitrary: m)
  case Nil
  then show ?case by simp
next
  case (Cons col cols)
  from Cons.prems(1) have ty: "schema_entry_typed col" and rest: "list_all schema_entry_typed cols"
    by simp_all
  from ty obtain d where col: "col = JObj d" by (cases col) simp_all
  with ty obtain n t where
    n: "dict_get d ''name'' (JStr []) = JStr n" and t: "dict_get d ''type'' (JStr ''varchar'') = JStr t"
    by (auto split: json.splits)
  show ?case
  proof (cases "n = []")
    case True
    with col n t Cons.IH [OF rest Cons.prems(2)] show ?thesis by simp
  next
    case False
    from Cons.prems(2) have "\<forall>v \<in> snd ` set ((n, JStr t) # m). \<exists>t. v = JStr t" by auto
    from Cons.IH [OF rest this] col n t False show ?thesis by simp
  qed
qed

lemma columns_loop_total:
  assumes "\<forall>v \<in> snd ` set m. \<exists>t. v = JStr t"
  shows "\<exists>columns. columns_loop str_of m items k = Inr columns"
proof (induction items arbitrary: k)
  case Nil
  show ?case by simp
next
  case (Cons item items)
  obtain f v where item: "item = (f, v)" by (cases item)
  have "\<exists>t. dict_get m f (JStr ''varchar'') = JStr t"
  proof (cases "map_of m f")
    case None
    then show ?thesis by (simp add: dict_get_def)
  next
    case (Some v)
    then have "v \<in> snd ` set m" by (force dest: map_of_SomeD)
    with assms Some show ?thesis by (auto simp: dict_get_def)
  qed
  then obtain t where "dict_get m f (JStr ''varchar'') = JStr t" by blast
  then obtain t' where t': "simplify_type (dict_get m f (JStr ''varchar'')) = Inr t'"
    by (simp add: simplify_type_def)
  from Cons.IH [of k] Cons.IH [of "k + 1"] item t' show ?case by auto
qed

lemma build_columns_total:
  assumes "\<not> truthy schema_info \<or> schema_typed schema_info"
  shows "\<exists>columns. build_columns_from_record str_of record schema_info = Inr columns"
proof -
  have "\<exists>m. schema_map_of schema_info = Inr m \<and> (\<forall>v \<in> snd ` set m. \<exists>t. v = JStr t)"
  proof (cases "truthy schema_info")
    case False
    then show ?thesis by (simp add: schema_map_of_def)
  next
    case True
    with assms obtain cols where c: "schema_info = JArr cols" "list_all schema_entry_typed cols"
      by (cases schema_info) auto
    from schema_map_loop_typed [OF c(2), of "[]"] c(1) True show ?thesis
      by (simp add: schema_map_of_def)
  qed
  then obtain m where m: "schema_map_of schema_info = Inr m"
    "\<forall>v \<in> snd ` set m. \<exists>t. v = JStr t" by blast
  from columns_loop_total [OF m(2), of str_of "record" 0] m(1) show ?thesis
    by (simp add: build_columns_from_record_def)
qed

text \<open>
  C6. A field that the schema map does not hold gets the column type \<open>varchar\<close>, whatever
  its value is: the type is read from the schema map with the default \<open>varchar\<close>, and no
  type is inferred from the value (\<open>infer_type\<close> is not used).
\<close>

theorem absent_field_typed_varchar:
  assumes "schema_map_of schema_info = Inr schema_map"
    and "build_columns_from_record str_of record schema_info = Inr columns"
    and "c \<in> set columns" and "dict_get c ''name'' JNull = JStr n"
    and "map_of schema_map n = None"
  shows "dict_get c ''col_type'' JNull = JStr ''varchar''"
proof -
  from assms(1,2) have "columns_loop str_of schema_map record 0 = Inr columns"
    by (simp add: build_columns_from_record_def)
  from columns_loop_varchar [OF this assms(3,4,5)] show ?thesis .
qed

theorem absent_field_typed_varchar_witness:
  "build_columns_from_record sample_str_of sample_record (JArr []) = Inr untyped_columns
   \<and> map_of sample_record ''row_count'' = Some (JInt 5)
   \<and> infer_type (JInt 5) = ''int''
   \<and> dict_get (column_entry ''row_count'' ''Row Count'' (JStr ''varchar'') 1 ''5'') ''col_type'' JNull
       = JStr ''varchar''"
proof -
  have h: "schema_map_of (JArr []) = Inr []"
    "build_columns_from_record sample_str_of sample_record (JArr []) = Inr untyped_columns"
    "column_entry ''row_count'' ''Row Count'' (JStr ''varchar'') 1 ''5'' \<in> set untyped_columns"
    "dict_get (column_entry ''row_count'' ''Row Count'' (JStr ''varchar'') 1 ''5'') ''name'' JNull
       = JStr ''row_count''"
    "map_of [] ''row_count'' = (None :: json option)"
    by code_simp+
  have e: "map_of sample_record ''row_count'' = Some (JInt 5)" "infer_type (JInt 5) = ''int''"
    by code_simp+
  from absent_field_typed_varchar [OF h] h(2) e show ?thesis by simp
qed

text \<open>
  C7. When the columns of a record are built, there is one column for each field whose name
  does not start with \<open>_internal_\<close>, in the order of the fields, and the \<open>sort_order\<close> values
  are \<open>0, 1, ..., k - 1\<close> for the \<open>k\<close> such fields. The columns are built for every record when
  the schema information is empty or a list of dicts whose names and types are strs.
\<close>

theorem columns_dense:
  "(build_columns_from_record str_of record schema_info = Inr columns \<longrightarrow>
      map (\<lambda>c. dict_get c ''name'' JNull) columns
        = map JStr (filter (\<lambda>n. \<not> startswith n ''_internal_'') (map fst record))
      \<and> map (\<lambda>c. dict_get c ''sort_order'' JNull) columns
        = map (\<lambda>i. JInt (int i)) [0..<length columns]
      \<and> length columns = length (filter (\<lambda>n. \<not> startswith n ''_internal_'') (map fst record)))
   \<and> (\<not> truthy schema_info \<or> schema_typed schema_info \<longrightarrow>
        (\<exists>cs. build_columns_from_record str_of record schema_info = Inr cs))"
proof -
  have "map (\<lambda>c. dict_get c ''name'' JNull) columns
        = map JStr (filter (\<lambda>n. \<not> startswith n ''_internal_'') (map fst record))
      \<and> map (\<lambda>c. dict_get c ''sort_order'' JNull) columns
        = map (\<lambda>i. JInt (int i)) [0..<length columns]
      \<and> length columns = length (filter (\<lambda>n. \<not> startswith n ''_internal_'') (map fst record))"
    if b: "build_columns_from_record str_of record schema_info = Inr columns"
  proof -
    from b obtain m where "columns_loop str_of m record 0 = Inr columns"
      by (auto simp: build_columns_from_record_def bnd_Inr_iff)
    from columns_loop_names [OF this] columns_loop_sort_order [OF this]
    have n: "map (\<lambda>c. dict_get c ''name'' JNull) columns
        = map JStr (filter (\<lambda>n. \<not> startswith n ''_internal_'') (map fst record))"
      and o: "map (\<lambda>c. dict_get c ''sort_order'' JNull) columns
        = map (\<lambda>i. JInt (int i)) [0..<length columns]" by simp_all
    from n have "length (map (\<lambda>c. dict_get c ''name'' JNull) columns)
        = length (map JStr (filter (\<lambda>n. \<not> startswith n ''_internal_'') (map fst record)))"
      by simp
    then have "length columns
        = length (filter (\<lambda>n. \<not> startswith n ''_internal_'') (map fst record))"
      by (simp only: length_map)
    with n o show ?thesis by blast
  qed
  with build_columns_total [of schema_info str_of "record"] show ?thesis by blast
qed

theorem columns_dense_witness:
  "build_columns_from_record sample_str_of sample_record sample_schema = Inr sample_columns
   \<and> map (\<lambda>c. dict_get c ''name'' JNull) sample_columns
       = map JStr [''name'', ''row_count'', ''is_active'', ''created_at'']
   \<and> map (\<lambda>c. dict_get c ''sort_order'' JNull) sample_columns = [JInt 0, JInt 1, JInt 2, JInt 3]
   \<and> length sample_columns = 4"
proof -
  have b: "build_columns_from_record sample_str_of sample_record sample_schema
             = Inr sample_columns"
    by code_simp
  have f: "filter (\<lambda>n. \<not> startswith n ''_internal_'') (map fst sample_record)
             = [''name'', ''row_count'', ''is_active'', ''created_at'']"
    by code_simp
  have l: "length sample_columns = 4" by code_simp
  have u: "map (\<lambda>i. JInt (int i)) [0..<4] = [JInt 0, JInt 1, JInt 2, JInt 3]"
    by code_simp
  from columns_dense [of sample_str_of sample_record sample_schema sample_columns] b
  show ?thesis unfolding f by (simp add: l u)
qed

section \<open>Properties of the owners\<close>

lemma owner_names_snoc:
  "owner_names (owners @ [owner_entry s]) = owner_names owners @ [JStr s]"
  by (simp add: owner_names_def owner_entry_def dict_get_def)

lemma owners_inv_snoc:
  assumes "owners_inv (owners, seen)" and "s \<notin> seen"
  shows "owners_inv (owners @ [owner_entry s], insert s seen)"
  using assms by (auto simp: owners_inv_def owner_names_snoc)

lemma add_owners_inv: "owners_inv state \<Longrightarrow> owners_inv (add_owners parts state)"
proof (induction parts arbitrary: state)
  case Nil
  then show ?case by simp
next
  case (Cons part parts)
  obtain owners seen where st: "state = (owners, seen)" by (cases state)
  show ?case
  proof (cases "strip part \<noteq> [] \<and> strip part \<notin> seen")
    case True
    with Cons.prems st have "owners_inv (owners @ [owner_entry (strip part)], insert (strip part) seen)"
      by (simp add: owners_inv_snoc)
    from Cons.IH [OF this] True st show ?thesis by (simp add: Let_def)
  next
    case False
    with Cons.IH [OF Cons.prems] st show ?thesis by (auto simp: Let_def)
  qed
qed

lemma owner_step_inv:
  assumes "owner_step record field state = Inr state'" and "owners_inv state"
  shows "owners_inv state'"
proof -
  obtain owners seen where st: "state = (owners, seen)" by (cases state)
  let ?v = "dict_get record field JNull"
  show ?thesis
  proof (cases "truthy ?v")
    case False
    with assms show ?thesis by (simp add: owner_step_def Let_def)
  next
    case True
    show ?thesis
    proof (cases "in_seen ?v (snd state)")
      case (Inl e)
      with True assms(1) show ?thesis by (simp add: owner_step_def Let_def)
    next
      case (Inr found)
      show ?thesis
      proof (cases found)
        case True
        with Inr \<open>truthy ?v\<close> assms show ?thesis by (simp add: owner_step_def Let_def)
      next
        case False
        show ?thesis
        proof (cases ?v)
          case (JStr s)
          with Inr False have ns: "s \<notin> seen" by (simp add: in_seen_def st split: if_splits)
          show ?thesis
          proof (cases "contains s '',''")
            case True
            with Inr False JStr \<open>truthy ?v\<close> assms(1)
            have "state' = add_owners (split '','' s) state"
              by (simp add: owner_step_def Let_def)
            with assms(2) show ?thesis by (simp add: add_owners_inv)
          next
            case nc: False
            with Inr False JStr \<open>truthy ?v\<close> assms(1) st
            have "state' = (owners @ [owner_entry s], insert s seen)"
              by (simp add: owner_step_def Let_def)
            with assms(2) st ns show ?thesis by (simp add: owners_inv_snoc)
          qed
        qed (use Inr False \<open>truthy ?v\<close> assms in \<open>auto simp: owner_step_def Let_def\<close>)
      qed
    qed
  qed
qed

lemma owners_loop_inv:
  "owners_loop record other_fields state = Inr state' \<Longrightarrow> owners_inv state \<Longrightarrow> owners_inv state'"
proof (induction other_fields arbitrary: state)
  case Nil
  then show ?case by simp
next
  case (Cons field other_fields)
  from Cons.prems(1) obtain mid where m: "owner_step record field state = Inr mid"
    and l: "owners_loop record other_fields mid = Inr state'"
    by (auto simp: bnd_Inr_iff)
  from Cons.IH [OF l owner_step_inv [OF m Cons.prems(2)]] show ?case .
qed

lemma owner_step_cases:
  "owner_step record field state =
     (if truthy (dict_get record field JNull) \<and> \<not> hashable (dict_get record field JNull)
      then Inl TypeError else owner_step record field state)"
  by (simp add: owner_step_def in_seen_def Let_def)

lemma owner_step_returns:
  "\<not> truthy (dict_get record field JNull) \<or> hashable (dict_get record field JNull) \<Longrightarrow>
   \<exists>state'. owner_step record field state = Inr state'"
  by (cases "dict_get record field JNull")
     (auto simp: owner_step_def in_seen_def Let_def)

lemma owner_step_raises:
  "owner_step record field state = Inl e \<Longrightarrow> e = TypeError"
  by (cases "dict_get record field JNull")
     (auto simp: owner_step_def in_seen_def Let_def split: if_splits)

lemma owner_step_skip:
  "\<not> truthy (dict_get record field JNull) \<Longrightarrow> owner_step record field state = Inr state"
  by (simp add: owner_step_def)

lemma owners_loop_returns:
  "\<forall>f \<in> set other_fields. \<not> truthy (dict_get record f JNull) \<or> hashable (dict_get record f JNull) \<Longrightarrow>
   \<exists>state'. owners_loop record other_fields state = Inr state'"
proof (induction other_fields arbitrary: state)
  case Nil
  show ?case by simp
next
  case (Cons field other_fields)
  from Cons.prems owner_step_returns [of "record" field state] obtain mid where
    "owner_step record field state = Inr mid" by auto
  with Cons.IH [of mid] Cons.prems show ?case by simp
qed

lemma owners_loop_raises:
  "\<exists>f \<in> set other_fields. truthy (dict_get record f JNull) \<and> \<not> hashable (dict_get record f JNull) \<Longrightarrow>
   owners_loop record other_fields state = Inl TypeError"
proof (induction other_fields arbitrary: state)
  case Nil
  then show ?case by simp
next
  case (Cons field other_fields)
  show ?case
  proof (cases "owner_step record field state")
    case (Inl e)
    with owner_step_raises [OF Inl] show ?thesis by simp
  next
    case (Inr mid)
    with owner_step_cases [of "record" field state]
    have "\<not> (truthy (dict_get record field JNull) \<and> \<not> hashable (dict_get record field JNull))"
      by (auto split: if_splits)
    with Cons.prems have "\<exists>f \<in> set other_fields. truthy (dict_get record f JNull)
        \<and> \<not> hashable (dict_get record f JNull)" by auto
    from Cons.IH [OF this, of mid] Inr show ?thesis by simp
  qed
qed

lemma owners_loop_skip:
  "\<forall>f \<in> set other_fields. \<not> truthy (dict_get record f JNull) \<Longrightarrow>
   owners_loop record other_fields state = Inr state"
  by (induction other_fields) (simp_all add: owner_step_skip)

text \<open>
  C8. Parsing the owners of a record raises \<open>TypeError\<close> when one of the owner fields holds a
  non-empty list or dict. Otherwise it returns a non-empty list of owners whose names are
  pairwise distinct, and when every owner field is missing or empty the list is the one
  owner \<open>system\<close>.
\<close>

theorem owners_from_record:
  "((\<exists>f \<in> set owner_fields. truthy (dict_get record f JNull)
        \<and> \<not> hashable (dict_get record f JNull))
      \<longrightarrow> parse_owners_from_record record = Inl TypeError)
   \<and> ((\<forall>f \<in> set owner_fields. \<not> truthy (dict_get record f JNull)
        \<or> hashable (dict_get record f JNull))
      \<longrightarrow> (\<exists>owners. parse_owners_from_record record = Inr owners \<and> owners \<noteq> []
            \<and> distinct (map (\<lambda>owner. dict_get owner ''display_name'' JNull) owners)))
   \<and> ((\<forall>f \<in> set owner_fields. \<not> truthy (dict_get record f JNull))
      \<longrightarrow> parse_owners_from_record record = Inr [system_owner])"
proof (intro conjI impI)
  assume "\<exists>f \<in> set owner_fields. truthy (dict_get record f JNull)
        \<and> \<not> hashable (dict_get record f JNull)"
  from owners_loop_raises [OF this] show "parse_owners_from_record record = Inl TypeError"
    by (simp add: parse_owners_from_record_def)
next
  assume "\<forall>f \<in> set owner_fields. \<not> truthy (dict_get record f JNull)
        \<or> hashable (dict_get record f JNull)"
  from owners_loop_returns [OF this] obtain state where
    l: "owners_loop record owner_fields ([], {}) = Inr state" by blast
  have "owners_inv ([], {})" by (simp add: owners_inv_def owner_names_def)
  from owners_loop_inv [OF l this] have d: "distinct (owner_names (fst state))"
    by (simp add: owners_inv_def)
  have s: "distinct (owner_names [system_owner])" by (simp add: owner_names_def)
  from l d s show "\<exists>owners. parse_owners_from_record record = Inr owners \<and> owners \<noteq> []
            \<and> distinct (map (\<lambda>owner. dict_get owner ''display_name'' JNull) owners)"
    by (auto simp: parse_owners_from_record_def owner_names_def)
next
  assume "\<forall>f \<in> set owner_fields. \<not> truthy (dict_get record f JNull)"
  from owners_loop_skip [OF this] show "parse_owners_from_record record = Inr [system_owner]"
    by (simp add: parse_owners_from_record_def)
qed

theorem owners_from_record_witness:
  "parse_owners_from_record owned_record = Inr [owner_entry ''alice'', owner_entry ''Bob Smith'']
   \<and> dict_get (owner_entry ''Bob Smith'') ''email'' JNull = JStr ''bob.smith@company.com''
   \<and> parse_owners_from_record listed_record = Inl TypeError
   \<and> parse_owners_from_record [(''name'', JStr ''orders'')] = Inr [system_owner]"
proof -
  have a: "parse_owners_from_record owned_record
             = Inr [owner_entry ''alice'', owner_entry ''Bob Smith'']"
    "dict_get (owner_entry ''Bob Smith'') ''email'' JNull = JStr ''bob.smith@company.com''"
    by code_simp+
  have b: "\<exists>f \<in> set owner_fields. truthy (dict_get listed_record f JNull)
        \<and> \<not> hashable (dict_get listed_record f JNull)"
    by code_simp
  have c: "\<forall>f \<in> set owner_fields. \<not> truthy (dict_get [(''name'', JStr ''orders'')] f JNull)"
    by code_simp
  from owners_from_record [of listed_record] owners_from_record [of "[(''name'', JStr ''orders'')]"]
    a b c
  show ?thesis by blast
qed

section \<open>Properties of the lineage\<close>

lemma lineage_entities_failure:
  "json_loads loads lineage_str = Inl e \<Longrightarrow> lineage_entities loads lineage_str = []"
  by (simp add: lineage_entities_def)

lemma direction_entities_first:
  "direction_entities loads (JArr (JObj r # others)) field
     = Inr (lineage_entities loads (dict_get r field (JStr [])))"
  by (simp add: direction_entities_def)

lemma py_item_table_ref:
  "py_item (table_ref d s n) ''schema'' = Inr s" "py_item (table_ref d s n) ''name'' = Inr n"
  by (simp_all add: py_item_def table_ref_def)

lemma get_lineage_first:
  assumes "parse_table_uri id' = table_ref database schema name"
    and "reply_records (execute_sql loads post (lineage_sql schema name))
           = Inr (JArr (JObj r # others))"
  shows "get_lineage loads post id' resource_type direction depth
     = lineage_result
         (if direction \<in> set [''upstream'', ''both'']
          then lineage_entities loads (dict_get r ''lineage_upstream'' (JStr [])) else [])
         (if direction \<in> set [''downstream'', ''both'']
          then lineage_entities loads (dict_get r ''lineage_downstream'' (JStr [])) else [])
         depth direction id'"
  unfolding get_lineage_def Let_def assms(1) py_item_table_ref bnd_Inr assms(2)
  by (simp add: direction_entities_first)



section \<open>Properties of the users\<close>

lemma get_user_cases:
  "get_user loads post id' = default_user id'
   \<or> (\<exists>d. get_user loads post id'
           = JObj [(''email'', dict_get d ''email'' (JStr (id' @ ''@company.com''))),
                     (''user_id'', dict_get d ''user_id'' (JStr id')),
                     (''display_name'', dict_get d ''display_name'' (JStr id')),
                     (''profile_url'', dict_get d ''profile_url'' (JStr [])),
                     (''is_active'', dict_get d ''is_active'' (JBool True)),
                     (''github_username'', dict_get d ''github_username'' (JStr [])),
                     (''team_name'', dict_get d ''team_name'' (JStr [])),
                     (''slack_id'', dict_get d ''slack_id'' (JStr [])),
                     (''employee_type'', dict_get d ''employee_type'' (JStr []))])"
proof (cases "bnd (post (user_query id')) (\<lambda>response.
        bnd (reply_records (parse_optimusdb_response loads response)) (\<lambda>records.
          if \<not> truthy records then Inr (default_user id')
          else bnd (py_first records) (user_of id')))")
  case (Inl e)
  then show ?thesis by (simp add: get_user_def)
next
  case (Inr user)
  then obtain response records where
    u: "(if \<not> truthy records then Inr (default_user id')
          else bnd (py_first records) (user_of id')) = Inr user"
    by (auto simp: bnd_Inr_iff)
  show ?thesis
  proof (cases "truthy records")
    case False
    with u Inr show ?thesis by (simp add: get_user_def)
  next
    case True
    with u obtain user_data where "user_of id' user_data = Inr user"
      by (auto simp: bnd_Inr_iff)
    then obtain d where "user = JObj [(''email'', dict_get d ''email'' (JStr (id' @ ''@company.com''))),
                     (''user_id'', dict_get d ''user_id'' (JStr id')),
                     (''display_name'', dict_get d ''display_name'' (JStr id')),
                     (''profile_url'', dict_get d ''profile_url'' (JStr [])),
                     (''is_active'', dict_get d ''is_active'' (JBool True)),
                     (''github_username'', dict_get d ''github_username'' (JStr [])),
                     (''team_name'', dict_get d ''team_name'' (JStr [])),
                     (''slack_id'', dict_get d ''slack_id'' (JStr [])),
                     (''employee_type'', dict_get d ''employee_type'' (JStr []))]"
      by (cases user_data) (auto simp: user_of_def)
    with Inr show ?thesis by (simp add: get_user_def) blast
  qed
qed

lemma get_user_complete: "\<exists>d. get_user loads post id' = JObj d \<and> map fst d = user_keys"
  using get_user_cases [of loads post id']
  by (auto simp: default_user_def user_keys_def)

lemma get_user_failure: "post (user_query id') = Inl e \<Longrightarrow> get_user loads post id' = default_user id'"
  by (simp add: get_user_def)

lemma get_user_no_record:
  "post (user_query id') = Inr response \<Longrightarrow>
   reply_records (parse_optimusdb_response loads response) = Inr records \<Longrightarrow>
   \<not> truthy records \<Longrightarrow> get_user loads post id' = default_user id'"
  by (simp add: get_user_def)

text \<open>
  C10. \<open>get_user\<close> always returns a dict with the nine keys of a user, never \<open>None\<close>. When the
  request raises, and when the reply has no record, it returns the default user, whose
  \<open>user_id\<close> and \<open>display_name\<close> are the id, whose \<open>email\<close> is the id followed by
  \<open>@company.com\<close>, and whose \<open>is_active\<close> is \<open>True\<close>.
\<close>

theorem get_user_always_a_user:
  "(\<exists>d. get_user loads post id' = JObj d \<and> map fst d = user_keys)
   \<and> ((\<exists>e. post (user_query id') = Inl e) \<longrightarrow> get_user loads post id' = default_user id')
   \<and> ((\<exists>response records. post (user_query id') = Inr response
          \<and> reply_records (parse_optimusdb_response loads response) = Inr records
          \<and> \<not> truthy records)
        \<longrightarrow> get_user loads post id' = default_user id')
   \<and> py_get (default_user id') ''user_id'' JNull = Inr (JStr id')
   \<and> py_get (default_user id') ''display_name'' JNull = Inr (JStr id')
   \<and> py_get (default_user id') ''email'' JNull = Inr (JStr (id' @ ''@company.com''))
   \<and> py_get (default_user id') ''is_active'' JNull = Inr (JBool True)"
  using get_user_complete [of loads post id'] get_user_failure [of post id' _ loads]
    get_user_no_record [of post id' _ loads]
  by (auto simp: default_user_def dict_get_def)

theorem get_user_always_a_user_witness:
  "get_user user_loads failing_post ''bob'' = default_user ''bob''
   \<and> get_user user_loads no_user_post ''bob'' = default_user ''bob''
   \<and> get_user user_loads user_post ''alice''
       = JObj [(''email'', JStr ''alice@company.com''), (''user_id'', JStr ''alice''),
               (''display_name'', JStr ''alice''), (''profile_url'', JStr []),
               (''is_active'', JBool True), (''github_username'', JStr []),
               (''team_name'', JStr ''data''), (''slack_id'', JStr []),
               (''employee_type'', JStr [])]"
proof -
  have f: "\<exists>e. failing_post (user_query ''bob'') = Inl e"
    by (simp add: failing_post_def)
  have n: "no_user_post (user_query ''bob'') = Inr (Response True no_user_body)"
    "reply_records (parse_optimusdb_response user_loads (Response True no_user_body))
       = Inr (JArr [])"
    "\<not> truthy (JArr [])"
    by code_simp+
  have u: "get_user user_loads user_post ''alice''
       = JObj [(''email'', JStr ''alice@company.com''), (''user_id'', JStr ''alice''),
               (''display_name'', JStr ''alice''), (''profile_url'', JStr []),
               (''is_active'', JBool True), (''github_username'', JStr []),
               (''team_name'', JStr ''data''), (''slack_id'', JStr []),
               (''employee_type'', JStr [])]"
    by code_simp
  from get_user_always_a_user [of user_loads failing_post "''bob''"] f
  have 1: "get_user user_loads failing_post ''bob'' = default_user ''bob''" by blast
  from get_user_always_a_user [of user_loads no_user_post "''bob''"] n
  have 2: "get_user user_loads no_user_post ''bob'' = default_user ''bob''" by blast
  from 1 2 u show ?thesis by blast
qed

end
